theory Spec2Isabelle
  imports Complex_Main "HOL-Library.AList" "HOL-Library.Char_ord" "HOL-Library.List_Lexorder"
    "HOL-Library.Product_Lexorder"
begin

section \<open>Retry wrapper (utils/floodwait.py)\<close>

text \<open>
  The exceptions \<open>safe_execute\<close> distinguishes: Telethon's \<open>FloodWaitError\<close> with its
  \<open>seconds\<close> attribute, the two transient errors \<open>ServerError\<close> and \<open>TimedOutError\<close>, and
  every other \<open>Exception\<close> (with its message).
\<close>

datatype tg_error = FloodWaitError int | ServerError | TimedOutError | OtherError string

text \<open>
  What \<open>safe_execute\<close> does to the outside world, in order: the \<open>n\<close>-th invocation of the
  wrapped function (counted from 0) and \<open>asyncio.sleep\<close> with its argument.
\<close>

datatype event = Call nat | Sleep real

text \<open>
  The wrapped function is given by the outcome of each of its invocations: \<open>func n\<close> is
  \<open>Inr r\<close> when invocation \<open>n\<close> returns \<open>r\<close> and \<open>Inl e\<close> when it raises \<open>e\<close>. Every pass
  through the loop body invokes the function once and every pass that does not leave the
  loop adds one to \<open>attempt\<close>, so the invocation number is \<open>attempt\<close>. \<open>rnd k\<close> is the draw
  of \<open>random.uniform(0, 1)\<close> made when \<open>attempt\<close> has become \<open>k\<close>. The result \<open>Inr None\<close>
  is Python's \<open>return None\<close> after the loop.
\<close>

function safe_execute_loop ::
  "(nat \<Rightarrow> tg_error + 'a) \<Rightarrow> int \<Rightarrow> bool \<Rightarrow> (nat \<Rightarrow> real) \<Rightarrow> nat \<Rightarrow> tg_error option \<Rightarrow> event list
     \<Rightarrow> (tg_error + 'a option) \<times> event list" where
  "safe_execute_loop func max_attempts exponential_backoff rnd attempt last_exception trace =
    (if int attempt < max_attempts then
       (case func attempt of
          Inr r \<Rightarrow> (Inr (Some r), trace @ [Call attempt])
        | Inl e \<Rightarrow>
           (case e of
              FloodWaitError seconds \<Rightarrow>
                (if int (attempt + 1) < max_attempts
                 then safe_execute_loop func max_attempts exponential_backoff rnd (attempt + 1) (Some e)
                        (trace @ [Call attempt, Sleep (real_of_int seconds)])
                 else (Inl e, trace @ [Call attempt]))
            | OtherError msg \<Rightarrow> (Inl e, trace @ [Call attempt])
            | _ \<Rightarrow>
                (if int (attempt + 1) < max_attempts
                 then safe_execute_loop func max_attempts exponential_backoff rnd (attempt + 1) (Some e)
                        (trace @ [Call attempt,
                           Sleep (if exponential_backoff
                                  then min 30 (2 ^ (attempt + 1) + rnd (attempt + 1)) else 5)])
                 else (Inl e, trace @ [Call attempt]))))
     else (case last_exception of Some e \<Rightarrow> (Inl e, trace) | None \<Rightarrow> (Inr None, trace)))"
  by pat_completeness auto
termination
  by (relation "measure (\<lambda>(func, m, eb, rnd, a, le, tr). nat (m - int a))") auto

declare safe_execute_loop.simps [simp del]

definition safe_execute ::
  "(nat \<Rightarrow> tg_error + 'a) \<Rightarrow> int \<Rightarrow> bool \<Rightarrow> (nat \<Rightarrow> real) \<Rightarrow> (tg_error + 'a option) \<times> event list" where
  "safe_execute func max_attempts exponential_backoff rnd =
     safe_execute_loop func max_attempts exponential_backoff rnd 0 None []"

text \<open>Vocabulary for the statements about \<open>safe_execute\<close>.\<close>

definition retryable :: "tg_error + 'a \<Rightarrow> bool" where
  "retryable r = (case r of Inl (FloodWaitError _) \<Rightarrow> True | Inl ServerError \<Rightarrow> True
                  | Inl TimedOutError \<Rightarrow> True | _ \<Rightarrow> False)"

definition wait_after :: "bool \<Rightarrow> (nat \<Rightarrow> real) \<Rightarrow> nat \<Rightarrow> tg_error + 'a \<Rightarrow> real" where
  "wait_after eb rnd i r =
     (case r of Inl (FloodWaitError seconds) \<Rightarrow> real_of_int seconds
      | _ \<Rightarrow> (if eb then min 30 (2 ^ (i + 1) + rnd (i + 1)) else 5))"

definition retry_steps :: "(nat \<Rightarrow> tg_error + 'a) \<Rightarrow> bool \<Rightarrow> (nat \<Rightarrow> real) \<Rightarrow> nat \<Rightarrow> nat \<Rightarrow> event list" where
  "retry_steps func eb rnd a k =
     concat (map (\<lambda>i. [Call i, Sleep (wait_after eb rnd i (func i))]) [a..<k])"

definition final_result :: "tg_error + 'a \<Rightarrow> tg_error + 'a option" where
  "final_result r = (case r of Inr v \<Rightarrow> Inr (Some v) | Inl e \<Rightarrow> Inl e)"

section \<open>Load balancer (utils/load_balancer.py): data\<close>

text \<open>
  Python floats are modelled as real numbers and \<open>time.time()\<close> as a parameter \<open>now\<close> of
  each operation: one reading per call of a method, so the clock does not advance while
  a method runs. The draws of \<open>random.uniform\<close> are parameters too. Dictionaries whose
  order is never observed are maps; \<open>session_metrics\<close>, which
  \<open>update_session_priorities\<close> iterates, is an association list in insertion order
  (\<open>AList.update\<close> keeps the place of a key that exists and appends a new one, as a Python
  dict does).
\<close>

type_synonym phone = string

datatype client = TelegramClient nat

datatype session_status =
  STATUS_HEALTHY | STATUS_DEGRADED | STATUS_OVERLOADED | STATUS_DISABLED | STATUS_COOLING

text \<open>
  The exceptions a call of the balancer ends with: the three the code of the balancer
  raises itself, and \<open>OperationError msg\<close>, an exception of the wrapped operation that
  \<open>execute_with_priority\<close> does not catch and lets through.
\<close>

datatype py_error = AttributeError | KeyError | ZeroDivisionError | OperationError string

text \<open>A call either returns a result or raises; the state it leaves is returned beside it.\<close>

datatype 'a outcome = Returned 'a | Raised py_error

record overload_entry =
  oh_timestamp :: real
  oh_score :: real
  oh_error_rate :: real
  oh_flood_waits :: nat
  oh_consecutive_errors :: nat

record cooldown_entry =
  cd_timestamp :: real
  cd_duration :: real
  cd_error_type :: string

text \<open>
  The per-session metrics dictionary. A key that is absent is \<open>None\<close>: \<open>record_operation\<close>
  creates the dictionary empty, \<open>register_client\<close> with ten keys. The three keys
  \<open>errors\<close>, \<open>flood_waits\<close> and \<open>total_flood_wait_time\<close>, written at registration and
  never read or written again, are left out.
\<close>

record metrics =
  operations :: "nat option"
  last_flood_wait :: "real option"
  response_times :: "(string \<times> (real \<times> real) list) list option"
  error_timestamps :: "real list option"
  health_score :: "real option"
  consecutive_errors :: "nat option"
  overload_history :: "overload_entry list option"
  operation_timestamps :: "real list option"
  operations_by_type :: "(string \<times> real list) list option"
  successful_ops_since_last_issue :: "nat option"
  status :: "session_status option"
  cooling_start :: "real option"
  cooling_duration :: "int option"
  cooling_end :: "real option"
  cooling_reason :: "string option"
  current_overload_score :: "real option"
  operation_rate_history :: "nat list option"
  user_type :: "string option"
  critical_operation :: "bool option"
  consistent_good_behavior :: "bool option"
  good_behavior_streak :: "nat option"

record pools =
  primary :: "phone list"
  backup :: "phone list"

record lb_state =
  active_clients :: "phone \<rightharpoonup> client"
  session_metrics :: "(phone \<times> metrics) list"
  last_health_check :: real
  sessions :: "string \<rightharpoonup> pools"
  flood_wait_times :: "phone \<rightharpoonup> (real \<times> int) list"
  session_cooldowns :: "phone \<rightharpoonup> real"
  session_cooldown_history :: "phone \<rightharpoonup> cooldown_entry list"
  session_priorities :: "phone \<rightharpoonup> int"
  behavior_patterns :: "phone \<rightharpoonup> (string \<times> (real \<times> string option) list) list"
  last_priority_update :: real

definition empty_metrics :: metrics where
  "empty_metrics = \<lparr> operations = None, last_flood_wait = None, response_times = None,
     error_timestamps = None, health_score = None, consecutive_errors = None,
     overload_history = None, operation_timestamps = None, operations_by_type = None,
     successful_ops_since_last_issue = None, status = None, cooling_start = None,
     cooling_duration = None, cooling_end = None, cooling_reason = None,
     current_overload_score = None, operation_rate_history = None, user_type = None,
     critical_operation = None, consistent_good_behavior = None, good_behavior_streak = None \<rparr>"

text \<open>The dictionary \<open>register_client\<close> stores for a phone it has not seen.\<close>

definition registered_metrics :: metrics where
  "registered_metrics = empty_metrics \<lparr> operations := Some 0, last_flood_wait := Some 0,
     response_times := Some [], error_timestamps := Some [], health_score := Some 1,
     consecutive_errors := Some 0, overload_history := Some [] \<rparr>"

text \<open>The state \<open>__init__\<close> builds.\<close>

definition init_state :: lb_state where
  "init_state = \<lparr> active_clients = Map.empty, session_metrics = [], last_health_check = 0,
     sessions = Map.empty, flood_wait_times = Map.empty, session_cooldowns = Map.empty,
     session_cooldown_history = Map.empty, session_priorities = Map.empty,
     behavior_patterns = Map.empty, last_priority_update = 0 \<rparr>"

subsection \<open>Constants of the module and of \<open>__init__\<close>\<close>

definition ERROR_WINDOW_SECONDS :: real where "ERROR_WINDOW_SECONDS = 300"
definition HEALTH_CHECK_INTERVAL :: real where "HEALTH_CHECK_INTERVAL = 60"

definition thr_error_rate :: real where "thr_error_rate = 0.2"
definition thr_flood_wait_frequency :: nat where "thr_flood_wait_frequency = 5"
definition thr_flood_wait_time_window :: real where "thr_flood_wait_time_window = 3600"
definition thr_consecutive_errors :: nat where "thr_consecutive_errors = 3"
definition thr_response_time_factor :: real where "thr_response_time_factor = 2"
definition thr_combined_warning_threshold :: real where "thr_combined_warning_threshold = 1"
definition thr_pattern_recognition_weight :: real where "thr_pattern_recognition_weight = 0.7"

definition base_cooldown :: int where "base_cooldown = 300"
definition max_cooldown :: int where "max_cooldown = 3600"
definition escalation_factor :: real where "escalation_factor = 1.5"
definition de_escalation_factor :: real where "de_escalation_factor = 0.8"
definition success_recovery_threshold :: nat where "success_recovery_threshold = 10"
definition repeated_issue_threshold :: nat where "repeated_issue_threshold = 3"
definition cooldown_jitter :: real where "cooldown_jitter = 0.2"

definition severity_weights :: "string \<Rightarrow> real" where
  "severity_weights error_type =
     (if error_type = ''flood_wait'' then 1.2
      else if error_type = ''timeout'' then 1.1
      else if error_type = ''network'' then 1.0
      else if error_type = ''auth'' then 1.3
      else 0.8)"

definition baseline_response_times :: "string \<rightharpoonup> real" where
  "baseline_response_times =
     [''default'' \<mapsto> 1.0, ''message'' \<mapsto> 1.2, ''join'' \<mapsto> 2.0, ''admin'' \<mapsto> 1.5, ''scrape'' \<mapsto> 2.5]"

definition default_priority :: int where "default_priority = 5"
definition min_priority :: int where "min_priority = 1"
definition max_priority :: int where "max_priority = 10"

definition priority_throttle_map :: "int \<rightharpoonup> real" where
  "priority_throttle_map =
     [1 \<mapsto> 5.0, 2 \<mapsto> 4.0, 3 \<mapsto> 3.0, 4 \<mapsto> 2.0, 5 \<mapsto> 1.5, 6 \<mapsto> 1.2, 7 \<mapsto> 1.1, 8 \<mapsto> 1.05,
      9 \<mapsto> 1.01, 10 \<mapsto> 1.0]"

definition pattern_window :: real where "pattern_window = 86400"

section \<open>Load balancer: operations\<close>

text \<open>\<open>d.get(key)\<close> and \<open>d[key] = v\<close> on \<open>session_metrics\<close>; \<open>x.get(key, [])\<close> on a list.\<close>

definition get_metrics :: "lb_state \<Rightarrow> phone \<Rightarrow> metrics option" where
  "get_metrics s phone = map_of (session_metrics s) phone"

definition set_metrics :: "lb_state \<Rightarrow> phone \<Rightarrow> metrics \<Rightarrow> lb_state" where
  "set_metrics s phone m = s\<lparr>session_metrics := AList.update phone m (session_metrics s)\<rparr>"

definition opt_list :: "'a list option \<Rightarrow> 'a list" where
  "opt_list x = (case x of None \<Rightarrow> [] | Some l \<Rightarrow> l)"

definition opt_nat :: "nat option \<Rightarrow> nat" where
  "opt_nat x = (case x of None \<Rightarrow> 0 | Some n \<Rightarrow> n)"

text \<open>\<open>xs[-n:]\<close>, used to trim a history once it is longer than \<open>n\<close>.\<close>

definition keep_last :: "nat \<Rightarrow> 'a list \<Rightarrow> 'a list" where
  "keep_last n xs = (if length xs > n then drop (length xs - n) xs else xs)"

subsection \<open>\<open>register_client\<close>\<close>

definition register_client :: "lb_state \<Rightarrow> phone \<Rightarrow> client \<Rightarrow> string \<Rightarrow> bool \<Rightarrow> lb_state" where
  "register_client s phone cl purpose is_primary =
    (let s1 = s\<lparr>active_clients := (active_clients s)(phone \<mapsto> cl)\<rparr>;
         s2 = (if get_metrics s1 phone = None then set_metrics s1 phone registered_metrics else s1);
         pl = (case sessions s2 purpose of None \<Rightarrow> \<lparr>primary = [], backup = []\<rparr> | Some pl \<Rightarrow> pl);
         pl' = (if is_primary
                then (if phone \<in> set (primary pl) then pl else pl\<lparr>primary := primary pl @ [phone]\<rparr>)
                else (if phone \<in> set (backup pl) then pl else pl\<lparr>backup := backup pl @ [phone]\<rparr>))
     in s2\<lparr>sessions := (sessions s2)(purpose \<mapsto> pl')\<rparr>)"

subsection \<open>\<open>calculate_adaptive_cooldown\<close>, \<open>cool_down_session\<close>, \<open>is_in_cooldown\<close>\<close>

text \<open>\<open>[ts[i] - ts[i-1] for i in range(1, len(ts))]\<close>\<close>

fun intervals_of :: "real list \<Rightarrow> real list" where
  "intervals_of (a # b # rest) = (b - a) # intervals_of (b # rest)"
| "intervals_of _ = []"

text \<open>Python's \<open>int(x)\<close> on a float truncates towards zero.\<close>

definition py_int :: "real \<Rightarrow> int" where
  "py_int x = (if 0 \<le> x then \<lfloor>x\<rfloor> else \<lceil>x\<rceil>)"

text \<open>Step 1 of the source: escalation on repeated cooldowns in the last six hours.\<close>

definition escalation_step :: "cooldown_entry list \<Rightarrow> real \<Rightarrow> real \<Rightarrow> real" where
  "escalation_step phone_history now cooldown_period =
     (if length phone_history \<ge> 2 then
        (let recent_cooldowns = filter (\<lambda>c. now - cd_timestamp c \<le> 21600) phone_history in
         if length recent_cooldowns \<ge> repeated_issue_threshold
         then cooldown_period * escalation_factor ^ (min (length recent_cooldowns) 5 - 1)
         else cooldown_period)
      else cooldown_period)"

text \<open>Step 3: the floor from the flood waits of the last hour, when \<open>last_flood_wait > 0\<close>.\<close>

definition flood_wait_step :: "lb_state \<Rightarrow> phone \<Rightarrow> metrics \<Rightarrow> real \<Rightarrow> real \<Rightarrow> real" where
  "flood_wait_step s phone m now cooldown_period =
     (case last_flood_wait m of
        None \<Rightarrow> cooldown_period
      | Some lfw \<Rightarrow>
          if lfw > 0 then
            (case map snd (filter (\<lambda>(ts, fw). now - ts \<le> 3600) (opt_list (flood_wait_times s phone))) of
               [] \<Rightarrow> cooldown_period
             | fw # fws \<Rightarrow>
                 (let max_flood_wait = fold max fws fw;
                      flood_cooldown = max (max_flood_wait * 2) base_cooldown
                  in max cooldown_period (real_of_int flood_cooldown)))
          else cooldown_period)"

text \<open>
  Step 4: the floor from a regular overload pattern. The division
  \<open>deviation / avg_interval\<close> has no guard in the source, so a zero average interval
  raises \<open>ZeroDivisionError\<close>.
\<close>

definition pattern_step :: "metrics \<Rightarrow> real \<Rightarrow> py_error + real" where
  "pattern_step m cooldown_period =
     (case overload_history m of
        None \<Rightarrow> Inr cooldown_period
      | Some oh \<Rightarrow>
          if length oh \<ge> 3 then
            (let timestamps = map oh_timestamp oh;
                 intervals = intervals_of timestamps;
                 avg_interval = sum_list intervals / real (length intervals);
                 deviation = sum_list (map (\<lambda>i. \<bar>i - avg_interval\<bar>) intervals) / real (length intervals)
             in if avg_interval = 0 then Inl ZeroDivisionError
                else (let consistency = 1 - min (deviation / avg_interval) 0.5 in
                      if consistency > 0.7 then Inr (max cooldown_period (avg_interval * 1.2))
                      else Inr cooldown_period))
          else Inr cooldown_period)"

text \<open>Step 5: de-escalation after enough successful operations.\<close>

definition recovery_step :: "cooldown_entry list \<Rightarrow> metrics \<Rightarrow> real \<Rightarrow> real" where
  "recovery_step phone_history m cooldown_period =
     (if opt_nat (successful_ops_since_last_issue m) \<ge> success_recovery_threshold \<and> phone_history \<noteq> []
      then max (real_of_int base_cooldown) (cd_duration (last phone_history) * de_escalation_factor)
      else cooldown_period)"

text \<open>\<open>jitter_factor\<close> is the draw of \<open>random.uniform(1 - 0.2, 1 + 0.2)\<close>.\<close>

definition calculate_adaptive_cooldown ::
  "lb_state \<Rightarrow> phone \<Rightarrow> string \<Rightarrow> real \<Rightarrow> real \<Rightarrow> int outcome \<times> lb_state" where
  "calculate_adaptive_cooldown s phone error_type now jitter_factor =
     (case get_metrics s phone of
        None \<Rightarrow> (Returned base_cooldown, s)
      | Some m \<Rightarrow>
          (let phone_history = opt_list (session_cooldown_history s phone);
               c1 = escalation_step phone_history now (real_of_int base_cooldown);
               c2 = c1 * severity_weights error_type;
               c3 = flood_wait_step s phone m now c2
           in case pattern_step m c3 of
                Inl e \<Rightarrow> (Raised e, s)
              | Inr c4 \<Rightarrow>
                  (let c5 = recovery_step phone_history m c4;
                       c6 = c5 * jitter_factor;
                       cooldown_period = min (max c6 (real_of_int base_cooldown)) (real_of_int max_cooldown);
                       history = keep_last 10 (phone_history @
                          [\<lparr>cd_timestamp = now, cd_duration = cooldown_period, cd_error_type = error_type\<rparr>])
                   in (Returned (py_int cooldown_period),
                       s\<lparr>session_cooldown_history := (session_cooldown_history s)(phone \<mapsto> history)\<rparr>))))"

definition cool_down_session ::
  "lb_state \<Rightarrow> phone \<Rightarrow> string \<Rightarrow> real \<Rightarrow> real \<Rightarrow> int outcome \<times> lb_state" where
  "cool_down_session s phone error_type now jitter_factor =
     (case calculate_adaptive_cooldown s phone error_type now jitter_factor of
        (Raised e, s1) \<Rightarrow> (Raised e, s1)
      | (Returned duration, s1) \<Rightarrow>
          (let s2 = s1\<lparr>session_cooldowns := (session_cooldowns s1)(phone \<mapsto> now + real_of_int duration)\<rparr>;
               s3 = (case get_metrics s2 phone of
                       None \<Rightarrow> s2
                     | Some m \<Rightarrow> set_metrics s2 phone
                         (m\<lparr>status := Some STATUS_COOLING, cooling_start := Some now,
                            cooling_duration := Some duration,
                            cooling_end := Some (now + real_of_int duration),
                            cooling_reason := Some error_type, consecutive_errors := Some 0,
                            successful_ops_since_last_issue := Some 0\<rparr>))
           in (Returned duration, s3)))"

definition is_in_cooldown :: "lb_state \<Rightarrow> phone \<Rightarrow> real \<Rightarrow> bool \<times> lb_state" where
  "is_in_cooldown s phone now =
     (case session_cooldowns s phone of
        None \<Rightarrow> (False, s)
      | Some cooldown_until \<Rightarrow>
          if now > cooldown_until
          then (False, s\<lparr>session_cooldowns := (session_cooldowns s)(phone := None)\<rparr>)
          else (True, s))"

subsection \<open>\<open>update_session_priorities\<close>\<close>

text \<open>\<open>self.session_priorities.get(phone, self.default_priority)\<close>\<close>

definition priority_of :: "lb_state \<Rightarrow> phone \<Rightarrow> int" where
  "priority_of s phone = (case session_priorities s phone of None \<Rightarrow> default_priority | Some p \<Rightarrow> p)"

text \<open>The behaviour factors of one update, as the \<open>if\<close>/\<open>elif\<close> chains of the source.\<close>

definition error_factor_of :: "real \<Rightarrow> int" where
  "error_factor_of error_rate =
     (if error_rate < 0.01 then 2
      else if error_rate < 0.05 then 1
      else if error_rate > 0.20 then -1
      else if error_rate > 0.40 then -2
      else 0)"

definition flood_factor_of :: "nat \<Rightarrow> int" where
  "flood_factor_of flood_waits =
     (if flood_waits = 0 then 1
      else if flood_waits > 3 then -1
      else if flood_waits > 5 then -2
      else 0)"

definition frequency_factor_of :: "nat \<Rightarrow> int" where
  "frequency_factor_of recent_ops =
     (if recent_ops > 100 then -2
      else if recent_ops > 50 then -1
      else if recent_ops < 10 then 1
      else 0)"

definition type_factor_of :: "metrics \<Rightarrow> int" where
  "type_factor_of m =
     (if user_type m = Some ''premium'' then 1
      else if user_type m = Some ''admin'' then 2
      else 0)"

text \<open>The end of the loop body: the streak of good updates kept in the metrics.\<close>

definition track_consistency :: "metrics \<Rightarrow> int \<Rightarrow> int \<Rightarrow> metrics" where
  "track_consistency m error_factor flood_factor =
     (if error_factor > 0 \<and> flood_factor \<ge> 0
      then (let streak = opt_nat (good_behavior_streak m) + 1 in
            if streak \<ge> 5
            then m\<lparr>good_behavior_streak := Some streak, consistent_good_behavior := Some True\<rparr>
            else m\<lparr>good_behavior_streak := Some streak\<rparr>)
      else m\<lparr>good_behavior_streak := Some 0, consistent_good_behavior := Some False\<rparr>)"

text \<open>
  The six factors of one session with \<open>ops\<close> recorded operations; the result is
  \<open>error_factor\<close>, \<open>flood_factor\<close> and their sum with the other four, \<open>adjustment\<close>.
\<close>

definition behavior_factors :: "lb_state \<Rightarrow> phone \<Rightarrow> metrics \<Rightarrow> nat \<Rightarrow> real \<Rightarrow> int \<times> int \<times> int" where
  "behavior_factors s phone m ops current_time =
     (let error_rate = real (length (opt_list (error_timestamps m))) / real (max ops 1);
          error_factor = error_factor_of error_rate;
          flood_waits = length (opt_list (flood_wait_times s phone));
          flood_factor = flood_factor_of flood_waits;
          recent_ops = length (filter (\<lambda>t. current_time - t \<le> 600) (opt_list (operation_timestamps m)));
          frequency_factor = frequency_factor_of recent_ops;
          type_factor = type_factor_of m;
          critical_factor = (if critical_operation m = Some True then 1 else 0);
          consistency_factor = (if consistent_good_behavior m = Some True then 1 else 0)
      in (error_factor, flood_factor,
          error_factor + flood_factor + frequency_factor + type_factor + critical_factor
            + consistency_factor))"

text \<open>The adjustment capped to two steps either way, and the result kept within the bounds.\<close>

definition clamp_priority :: "int \<Rightarrow> int" where
  "clamp_priority new_priority = max (min new_priority max_priority) min_priority"

definition adjusted_priority :: "int \<Rightarrow> int \<Rightarrow> int" where
  "adjusted_priority priority adjustment =
     (let capped_adjustment = max (min adjustment 2) (-2);
          new_priority = priority + capped_adjustment
      in clamp_priority new_priority)"

text \<open>The body of the loop over \<open>self.session_metrics.items()\<close>, for one phone.\<close>

definition update_priority_for :: "real \<Rightarrow> phone \<Rightarrow> lb_state \<Rightarrow> lb_state" where
  "update_priority_for current_time phone s =
     (case get_metrics s phone of
        None \<Rightarrow> s
      | Some m \<Rightarrow>
          (let s1 = (if session_priorities s phone = None
                     then s\<lparr>session_priorities := (session_priorities s)(phone \<mapsto> default_priority)\<rparr>
                     else s)
           in case operations m of
                None \<Rightarrow> s1
              | Some ops \<Rightarrow>
                  if ops < 10 then s1
                  else
                    (case behavior_factors s1 phone m ops current_time of
                       (error_factor, flood_factor, adjustment) \<Rightarrow>
                         (let new_priority = adjusted_priority (priority_of s1 phone) adjustment;
                              s2 = (if new_priority \<noteq> priority_of s1 phone
                                    then s1\<lparr>session_priorities :=
                                              (session_priorities s1)(phone \<mapsto> new_priority)\<rparr>
                                    else s1)
                          in set_metrics s2 phone (track_consistency m error_factor flood_factor)))))"

definition update_session_priorities :: "lb_state \<Rightarrow> real \<Rightarrow> lb_state" where
  "update_session_priorities s current_time =
     fold (update_priority_for current_time) (map fst (session_metrics s)) s"

definition apply_priority_throttling :: "lb_state \<Rightarrow> phone \<Rightarrow> real" where
  "apply_priority_throttling s phone =
     (case priority_throttle_map (priority_of s phone) of None \<Rightarrow> 1.5 | Some f \<Rightarrow> f)"

subsection \<open>\<open>get_best_client\<close>\<close>

text \<open>
  The class body defines \<open>get_best_client\<close> twice. The second \<open>def\<close> (keyed by purpose,
  returning a pair of phone and client) rebinds the name, so it is the method every
  caller reaches; the first (keyed by operation type) is never reachable and is not
  modelled.

  \<open>check_all_sessions_health\<close> and \<open>check_session_health\<close> are called on \<open>self\<close> but the
  class defines neither of them (and has no \<open>__getattr__\<close>): the attribute lookup raises
  \<open>AttributeError\<close>.
\<close>

definition health_of :: "lb_state \<Rightarrow> phone \<Rightarrow> real" where
  "health_of s phone =
     (case get_metrics s phone of
        None \<Rightarrow> 1
      | Some m \<Rightarrow> (case health_score m of None \<Rightarrow> 1 | Some h \<Rightarrow> h))"

text \<open>\<open>combined_score\<close> as computed for a session of the primary pool and of the backup pool.\<close>

definition combined_score :: "lb_state \<Rightarrow> bool \<Rightarrow> phone \<Rightarrow> real" where
  "combined_score s is_backup phone =
     (if is_backup then real_of_int (priority_of s phone) * health_of s phone * 0.9
      else real_of_int (priority_of s phone) * health_of s phone)"

text \<open>The loop that fills \<open>available_sessions\<close> from one pool.\<close>

fun collect_available ::
  "bool \<Rightarrow> real \<Rightarrow> phone list \<Rightarrow> lb_state \<Rightarrow> (real \<times> phone) list \<times> lb_state" where
  "collect_available is_backup now [] s = ([], s)"
| "collect_available is_backup now (phone # rest) s =
     (if active_clients s phone \<noteq> None then
        (case is_in_cooldown s phone now of
           (True, s1) \<Rightarrow> collect_available is_backup now rest s1
         | (False, s1) \<Rightarrow>
             (case collect_available is_backup now rest s1 of
                (found, s2) \<Rightarrow> ((combined_score s1 is_backup phone, phone) # found, s2)))
      else collect_available is_backup now rest s)"

text \<open>
  The last resort: the first session of the pools that is an active client, has metrics
  and is not marked cooling. Reading the key \<open>status\<close> of a metrics dictionary that has
  none raises \<open>KeyError\<close>.
\<close>

fun last_resort :: "lb_state \<Rightarrow> phone list \<Rightarrow> (phone option \<times> client option) outcome" where
  "last_resort s [] = Returned (None, None)"
| "last_resort s (phone # rest) =
     (case active_clients s phone of
        None \<Rightarrow> last_resort s rest
      | Some cl \<Rightarrow>
          (case get_metrics s phone of
             None \<Rightarrow> last_resort s rest
           | Some m \<Rightarrow>
               (case status m of
                  None \<Rightarrow> Raised KeyError
                | Some st \<Rightarrow>
                    if st \<noteq> STATUS_COOLING then Returned (Some phone, Some cl)
                    else last_resort s rest)))"

text \<open>The priority update \<open>get_best_client\<close> runs first when the last one is over ten minutes old.\<close>

definition update_priorities_if_due :: "lb_state \<Rightarrow> real \<Rightarrow> lb_state" where
  "update_priorities_if_due s current_time =
     (if current_time - last_priority_update s > 600
      then (update_session_priorities s current_time)\<lparr>last_priority_update := current_time\<rparr>
      else s)"

text \<open>The pools of the purpose, or of \<open>general\<close> when the purpose is unknown.\<close>

definition pools_for :: "lb_state \<Rightarrow> string \<Rightarrow> pools option" where
  "pools_for s purpose =
     (case sessions s purpose of Some pl \<Rightarrow> Some pl | None \<Rightarrow> sessions s ''general'')"

definition get_best_client ::
  "lb_state \<Rightarrow> string \<Rightarrow> real \<Rightarrow> (phone option \<times> client option) outcome \<times> lb_state" where
  "get_best_client s purpose current_time =
     (if current_time - last_health_check s > HEALTH_CHECK_INTERVAL then (Raised AttributeError, s)
      else
        (let s1 = update_priorities_if_due s current_time
         in case pools_for s1 purpose of
              None \<Rightarrow> (Returned (None, None), s1)
            | Some pl \<Rightarrow>
                (case collect_available False current_time (primary pl) s1 of
                   (from_primary, s2) \<Rightarrow>
                     (case (if from_primary = []
                            then collect_available True current_time (backup pl) s2
                            else (from_primary, s2)) of
                        (available_sessions, s3) \<Rightarrow>
                          (case rev (sort available_sessions) of
                             (best_score, best_phone) # _ \<Rightarrow>
                               (Returned (Some best_phone, active_clients s3 best_phone), s3)
                           | [] \<Rightarrow> (last_resort s3 (primary pl @ backup pl), s3))))))"

subsection \<open>\<open>record_operation\<close>\<close>

text \<open>
  \<open>error\<close> is the exception passed in (its message), or \<open>None\<close>; an exception object is
  truthy. The guard of the flood-wait branch tests the literal key \<open>"flood_waits"\<close>, not
  \<open>phone\<close>, as the source does; when that key exists and \<open>phone\<close> has no list yet, the
  subscript raises \<open>KeyError\<close>.
\<close>

definition record_operation ::
  "lb_state \<Rightarrow> phone \<Rightarrow> bool \<Rightarrow> string option \<Rightarrow> int \<Rightarrow> string \<Rightarrow> real \<Rightarrow> unit outcome \<times> lb_state" where
  "record_operation s phone success error floodwait_seconds operation_type current_time =
     (let m0 = (case get_metrics s phone of None \<Rightarrow> empty_metrics | Some m \<Rightarrow> m);
          stamps = filter (\<lambda>t. current_time - t \<le> ERROR_WINDOW_SECONDS)
                     (opt_list (operation_timestamps m0) @ [current_time]);
          by_type = opt_list (operations_by_type m0);
          m1 = m0\<lparr>operation_timestamps := Some stamps,
                  operations := Some (length stamps),
                  operations_by_type := Some (AList.update operation_type
                     (opt_list (map_of by_type operation_type) @ [current_time]) by_type)\<rparr>;
          m2 = (if \<not> success \<and> error \<noteq> None
                then m1\<lparr>error_timestamps := Some (filter (\<lambda>t. current_time - t \<le> ERROR_WINDOW_SECONDS)
                                                  (opt_list (error_timestamps m1) @ [current_time])),
                        consecutive_errors := Some (opt_nat (consecutive_errors m1) + 1)\<rparr>
                else m1\<lparr>consecutive_errors := Some 0,
                        successful_ops_since_last_issue :=
                          Some (opt_nat (successful_ops_since_last_issue m1) + 1)\<rparr>);
          s1 = set_metrics s phone m2
      in if floodwait_seconds > 0 then
           (let s2 = (if flood_wait_times s1 ''flood_waits'' = None
                      then s1\<lparr>flood_wait_times := (flood_wait_times s1)(phone \<mapsto> [])\<rparr>
                      else s1)
            in case flood_wait_times s2 phone of
                 None \<Rightarrow> (Raised KeyError, s2)
               | Some waits \<Rightarrow>
                   (let cutoff = current_time - thr_flood_wait_time_window;
                        kept = filter (\<lambda>(ts, wt). ts \<ge> cutoff) (waits @ [(current_time, floodwait_seconds)]);
                        s3 = s2\<lparr>flood_wait_times := (flood_wait_times s2)(phone \<mapsto> kept)\<rparr>;
                        s4 = set_metrics s3 phone (m2\<lparr>successful_ops_since_last_issue := Some 0\<rparr>)
                    in (Raised AttributeError, s4)))
         else (Raised AttributeError, s1))"

subsection \<open>\<open>execute_with_priority\<close>\<close>

text \<open>
  The wrapped coroutine, given the client it is called with, returns a result, raises an
  \<open>Exception\<close> whose \<open>str\<close> is the message, or raises a \<open>BaseException\<close> that is not an
  \<open>Exception\<close> (a cancellation of the task, \<open>asyncio.CancelledError\<close>, is one), which
  \<open>except Exception\<close> does not catch.
\<close>

datatype 'r op_outcome = OpReturns 'r | OpRaises string | OpRaisesBase string

datatype 'r exec_result = ResultNone | ResultValue 'r | ResultException string

definition lower_char :: "char \<Rightarrow> char" where
  "lower_char c = (if 65 \<le> (of_char c :: nat) \<and> (of_char c :: nat) \<le> 90
                   then char_of (of_char c + (32::nat)) else c)"

fun starts_with :: "string \<Rightarrow> string \<Rightarrow> bool" where
  "starts_with [] _ = True"
| "starts_with (a # as) [] = False"
| "starts_with (a # as) (b # bs) = (a = b \<and> starts_with as bs)"

text \<open>\<open>sub in text\<close>\<close>

fun contains :: "string \<Rightarrow> string \<Rightarrow> bool" where
  "contains sub [] = (sub = [])"
| "contains sub (c # cs) = (starts_with sub (c # cs) \<or> contains sub cs)"

definition is_digit :: "char \<Rightarrow> bool" where
  "is_digit c = (48 \<le> (of_char c :: nat) \<and> (of_char c :: nat) \<le> 57)"

text \<open>
  \<open>re.search(r"(\d+)", error_str)\<close> and \<open>int\<close> of its group: the first maximal run of
  (ASCII) digits, read in base ten; \<open>None\<close> when the text has no digit.
\<close>

definition first_number :: "string \<Rightarrow> int option" where
  "first_number text =
     (case takeWhile is_digit (dropWhile (\<lambda>c. \<not> is_digit c) text) of
        [] \<Rightarrow> None
      | ds \<Rightarrow> Some (foldl (\<lambda>acc c. acc * 10 + (int (of_char c) - 48)) 0 ds))"

text \<open>The \<open>except\<close> branch's value of \<open>floodwait_seconds\<close> for an exception with message \<open>msg\<close>.\<close>

definition extract_floodwait :: "string \<Rightarrow> int" where
  "extract_floodwait msg =
     (let error_str = map lower_char msg in
      if contains ''floodwait'' error_str \<or> contains ''flood wait'' error_str
      then (case first_number error_str of None \<Rightarrow> 0 | Some n \<Rightarrow> n)
      else 0)"

text \<open>
  \<open>current_time\<close> is the clock when the client is chosen, \<open>record_time\<close> the clock when
  the \<open>finally\<close> block records the operation (after the throttling sleep and the
  operation itself; the sleep changes no state of the balancer). The \<open>finally\<close> block
  runs after either \<open>return\<close> and also while an exception that was not caught is on its
  way out, then with \<open>success\<close>, \<open>error\<close> and \<open>floodwait_seconds\<close> as initialised before
  the \<open>try\<close>; an exception the block raises replaces the value being returned or the
  exception on its way out.
\<close>

definition execute_with_priority ::
  "lb_state \<Rightarrow> string \<Rightarrow> (client \<Rightarrow> 'r op_outcome) \<Rightarrow> string \<Rightarrow> real \<Rightarrow> real
     \<Rightarrow> ('r exec_result \<times> bool \<times> string) outcome \<times> lb_state" where
  "execute_with_priority s purpose func operation_type current_time record_time =
     (case get_best_client s purpose current_time of
        (Raised e, s1) \<Rightarrow> (Raised e, s1)
      | (Returned (phone_opt, None), s1) \<Rightarrow> (Returned (ResultNone, False, ''''), s1)
      | (Returned (None, Some cl), s1) \<Rightarrow> (Returned (ResultNone, False, ''''), s1)
      | (Returned (Some phone, Some cl), s1) \<Rightarrow>
          (case func cl of
             OpReturns result \<Rightarrow>
               (case record_operation s1 phone True None 0 operation_type record_time of
                  (Raised e, s2) \<Rightarrow> (Raised e, s2)
                | (Returned _, s2) \<Rightarrow> (Returned (ResultValue result, True, phone), s2))
           | OpRaises msg \<Rightarrow>
               (case record_operation s1 phone False (Some msg) (extract_floodwait msg)
                       operation_type record_time of
                  (Raised e, s2) \<Rightarrow> (Raised e, s2)
                | (Returned _, s2) \<Rightarrow> (Returned (ResultException msg, False, phone), s2))
           | OpRaisesBase msg \<Rightarrow>
               (case record_operation s1 phone True None 0 operation_type record_time of
                  (Raised e, s2) \<Rightarrow> (Raised e, s2)
                | (Returned _, s2) \<Rightarrow> (Raised (OperationError msg), s2))))"

text \<open>What the \<open>finally\<close> block passes to \<open>record_operation\<close> for an outcome of the operation.\<close>

definition outcome_success :: "'r op_outcome \<Rightarrow> bool" where
  "outcome_success r = (case r of OpReturns _ \<Rightarrow> True | OpRaises _ \<Rightarrow> False | OpRaisesBase _ \<Rightarrow> True)"

definition outcome_error :: "'r op_outcome \<Rightarrow> string option" where
  "outcome_error r = (case r of OpReturns _ \<Rightarrow> None | OpRaises msg \<Rightarrow> Some msg | OpRaisesBase _ \<Rightarrow> None)"

definition outcome_floodwait :: "'r op_outcome \<Rightarrow> int" where
  "outcome_floodwait r =
     (case r of OpReturns _ \<Rightarrow> 0 | OpRaises msg \<Rightarrow> extract_floodwait msg | OpRaisesBase _ \<Rightarrow> 0)"

subsection \<open>\<open>register_user_behavior\<close>\<close>

definition register_user_behavior ::
  "lb_state \<Rightarrow> phone \<Rightarrow> string \<Rightarrow> string option \<Rightarrow> real \<Rightarrow> lb_state" where
  "register_user_behavior s phone behavior_type val current_time =
     (let patterns = (case behavior_patterns s phone of None \<Rightarrow> [] | Some d \<Rightarrow> d);
          entries = filter (\<lambda>(ts, v). current_time - ts \<le> pattern_window)
                      (opt_list (map_of patterns behavior_type) @ [(current_time, val)]);
          s1 = s\<lparr>behavior_patterns :=
                   (behavior_patterns s)(phone \<mapsto> AList.update behavior_type entries patterns)\<rparr>;
          adjustment = (if behavior_type = ''spam'' then -2
                        else if behavior_type = ''abusive'' then -3
                        else if behavior_type = ''helpful'' then 1
                        else (0::int))
      in case session_priorities s1 phone of
           None \<Rightarrow> s1
         | Some p \<Rightarrow>
             if adjustment \<noteq> 0 then
               (let new_priority = clamp_priority (p + adjustment) in
                if new_priority \<noteq> p
                then s1\<lparr>session_priorities := (session_priorities s1)(phone \<mapsto> new_priority)\<rparr>
                else s1)
             else s1)"

subsection \<open>\<open>detect_session_overload\<close>\<close>

text \<open>
  Whether one entry of \<open>response_times\<close> counts as degraded: its average over the last
  30 minutes exceeds the baseline of its operation type times the factor.
\<close>

definition degraded :: "real \<Rightarrow> string \<times> (real \<times> real) list \<Rightarrow> bool" where
  "degraded current_time entry =
     (case entry of (op_type, samples) \<Rightarrow>
        (let recent_times = map snd (filter (\<lambda>(ts, t). current_time - ts \<le> 1800) samples) in
         case baseline_response_times op_type of
           None \<Rightarrow> False
         | Some baseline \<Rightarrow>
             recent_times \<noteq> [] \<and>
             sum_list recent_times / real (length recent_times) > baseline * thr_response_time_factor))"

definition pattern_score_of :: "metrics \<Rightarrow> real \<Rightarrow> real" where
  "pattern_score_of m current_time =
     (case overload_history m of
        None \<Rightarrow> 0
      | Some oh \<Rightarrow>
          if length oh \<ge> 2 then
            (let time_since_last = current_time - oh_timestamp (last oh);
                 intervals = intervals_of (map oh_timestamp oh)
             in if intervals \<noteq> [] then
                  (let avg_interval = sum_list intervals / real (length intervals) in
                   if time_since_last > avg_interval * 0.7 then thr_pattern_recognition_weight else 0)
                else 0)
          else 0)"

text \<open>
  The score of the five indicators. The branch on \<open>operation_rate_history\<close> (indicator 4
  of the source) only writes to the log and is left out.
\<close>

definition overload_score_of :: "lb_state \<Rightarrow> phone \<Rightarrow> metrics \<Rightarrow> real \<Rightarrow> real" where
  "overload_score_of s phone m current_time =
     (let recent_errors = length (filter (\<lambda>t. current_time - t \<le> ERROR_WINDOW_SECONDS)
                                    (opt_list (error_timestamps m)));
          recent_ops = max (length (filter (\<lambda>t. current_time - t \<le> ERROR_WINDOW_SECONDS)
                                      (opt_list (operation_timestamps m)))) 1;
          error_rate = real recent_errors / real recent_ops;
          flood_waits = length (filter (\<lambda>(ts, fw). current_time - ts \<le> thr_flood_wait_time_window)
                                  (opt_list (flood_wait_times s phone)));
          response_time_degradation = length (filter (degraded current_time) (opt_list (response_times m)));
          pattern_score = pattern_score_of m current_time
      in (if error_rate \<ge> thr_error_rate then error_rate / thr_error_rate else 0)
         + (if flood_waits \<ge> thr_flood_wait_frequency
            then real flood_waits / real thr_flood_wait_frequency else 0)
         + (if opt_nat (consecutive_errors m) \<ge> thr_consecutive_errors
            then real (opt_nat (consecutive_errors m)) / real thr_consecutive_errors else 0)
         + real response_time_degradation * 0.2
         + pattern_score)"

definition detect_session_overload :: "lb_state \<Rightarrow> phone \<Rightarrow> real \<Rightarrow> bool \<times> lb_state" where
  "detect_session_overload s phone current_time =
     (case get_metrics s phone of
        None \<Rightarrow> (False, s)
      | Some m \<Rightarrow>
          (let overload_score = overload_score_of s phone m current_time;
               recent_errors = length (filter (\<lambda>t. current_time - t \<le> ERROR_WINDOW_SECONDS)
                                         (opt_list (error_timestamps m)));
               recent_ops = max (length (filter (\<lambda>t. current_time - t \<le> ERROR_WINDOW_SECONDS)
                                           (opt_list (operation_timestamps m)))) 1;
               flood_waits = length (filter (\<lambda>(ts, fw). current_time - ts \<le> thr_flood_wait_time_window)
                                       (opt_list (flood_wait_times s phone)));
               current_rate = length (filter (\<lambda>t. current_time - t \<le> 60)
                                        (opt_list (operation_timestamps m)));
               m1 = m\<lparr>current_overload_score := Some overload_score,
                      operation_rate_history :=
                        Some (keep_last 10 (opt_list (operation_rate_history m) @ [current_rate]))\<rparr>;
               is_overloaded = (overload_score \<ge> thr_combined_warning_threshold);
               m2 = (if is_overloaded
                     then m1\<lparr>overload_history := Some (keep_last 20 (opt_list (overload_history m1) @
                                [\<lparr>oh_timestamp = current_time, oh_score = overload_score,
                                  oh_error_rate = real recent_errors / real recent_ops,
                                  oh_flood_waits = flood_waits,
                                  oh_consecutive_errors = opt_nat (consecutive_errors m)\<rparr>])),
                             status := Some STATUS_OVERLOADED\<rparr>
                     else m1)
           in (is_overloaded, set_metrics s phone m2)))"

subsection \<open>\<open>implement_session_rotation\<close> and \<open>force_session_rotation\<close>\<close>

text \<open>The loop that fills \<open>available_phones\<close> from one pool, leaving out the current phone.\<close>

fun collect_alternatives :: "phone \<Rightarrow> real \<Rightarrow> phone list \<Rightarrow> lb_state \<Rightarrow> phone list \<times> lb_state" where
  "collect_alternatives current_phone now [] s = ([], s)"
| "collect_alternatives current_phone now (phone # rest) s =
     (if phone \<noteq> current_phone \<and> active_clients s phone \<noteq> None then
        (case is_in_cooldown s phone now of
           (True, s1) \<Rightarrow> collect_alternatives current_phone now rest s1
         | (False, s1) \<Rightarrow>
             (case collect_alternatives current_phone now rest s1 of
                (found, s2) \<Rightarrow> (phone # found, s2)))
      else collect_alternatives current_phone now rest s)"

text \<open>The rotation score of one phone (lower is better); \<open>rnd phone\<close> is its draw of
  \<open>random.uniform(0, 0.1)\<close>.\<close>

definition rotation_score :: "lb_state \<Rightarrow> real \<Rightarrow> (phone \<Rightarrow> real) \<Rightarrow> phone \<Rightarrow> real" where
  "rotation_score s now rnd phone =
     (case get_metrics s phone of
        None \<Rightarrow> 0
      | Some m \<Rightarrow>
          0 - (case health_score m of None \<Rightarrow> 1 | Some h \<Rightarrow> h)
            - real_of_int (priority_of s phone) / 10
            + real (length (filter (\<lambda>t. now - t \<le> 300) (opt_list (operation_timestamps m)))) / 100
            + rnd phone)"

text \<open>
  The rotation once the pool of the current phone is known: the alternatives of the same
  pool, else those of the other pool, else the current phone again; among alternatives
  the one with the lowest score.
\<close>

definition rotate_among ::
  "phone \<Rightarrow> real \<Rightarrow> (phone \<Rightarrow> real) \<Rightarrow> phone list \<Rightarrow> phone list \<Rightarrow> lb_state
     \<Rightarrow> (phone option \<times> client option) outcome \<times> lb_state" where
  "rotate_among current_phone now rnd same_pool other_pool s =
     (case collect_alternatives current_phone now same_pool s of
        (from_same, s1) \<Rightarrow>
          (case (if from_same = []
                 then collect_alternatives current_phone now other_pool s1
                 else (from_same, s1)) of
             (available_phones, s2) \<Rightarrow>
               (case sort (map (\<lambda>phone. (rotation_score s2 now rnd phone, phone)) available_phones) of
                  [] \<Rightarrow> (Returned (Some current_phone, active_clients s2 current_phone), s2)
                | (best_score, best_phone) # _ \<Rightarrow>
                    (Returned (Some best_phone, active_clients s2 best_phone), s2))))"

text \<open>\<open>current_phone\<close> is \<open>None\<close> or a string; \<open>None\<close> and the empty string are falsy.\<close>

definition implement_session_rotation ::
  "lb_state \<Rightarrow> string \<Rightarrow> phone option \<Rightarrow> real \<Rightarrow> (phone \<Rightarrow> real)
     \<Rightarrow> (phone option \<times> client option) outcome \<times> lb_state" where
  "implement_session_rotation s purpose current_phone_opt now rnd =
     (case current_phone_opt of
        None \<Rightarrow> get_best_client s purpose now
      | Some current_phone \<Rightarrow>
          if current_phone = [] then get_best_client s purpose now
          else
            (let pl = (case sessions s purpose of None \<Rightarrow> \<lparr>primary = [], backup = []\<rparr> | Some pl \<Rightarrow> pl);
                 current_is_backup = (current_phone \<notin> set (primary pl) \<and> current_phone \<in> set (backup pl))
             in if current_is_backup
                then rotate_among current_phone now rnd (backup pl) (primary pl) s
                else rotate_among current_phone now rnd (primary pl) (backup pl) s))"

definition force_session_rotation ::
  "lb_state \<Rightarrow> string \<Rightarrow> phone \<Rightarrow> real \<Rightarrow> real \<Rightarrow> (phone \<Rightarrow> real)
     \<Rightarrow> (phone option \<times> client option) outcome \<times> lb_state" where
  "force_session_rotation s purpose avoid_phone now jitter_factor rnd =
     (if get_metrics s avoid_phone \<noteq> None then
        (case cool_down_session s avoid_phone ''forced_rotation'' now jitter_factor of
           (Raised e, s1) \<Rightarrow> (Raised e, s1)
         | (Returned duration, s1) \<Rightarrow> implement_session_rotation s1 purpose (Some avoid_phone) now rnd)
      else implement_session_rotation s purpose (Some avoid_phone) now rnd)"

section \<open>Runs of the balancer\<close>

text \<open>
  The public operations with their arguments, clock readings and random draws, and the
  state each leaves behind (also when it raises). A run applies a list of them to the
  state \<open>__init__\<close> builds.
\<close>

datatype lb_op =
    RegisterClient phone client string bool
  | CalculateAdaptiveCooldown phone string real real
  | CoolDownSession phone string real real
  | IsInCooldown phone real
  | GetBestClient string real
  | UpdateSessionPriorities real
  | RecordOperation phone bool "string option" int string real
  | ExecuteWithPriority string "client \<Rightarrow> unit op_outcome" string real real
  | RegisterUserBehavior phone string "string option" real
  | DetectSessionOverload phone real
  | ImplementSessionRotation string "phone option" real "phone \<Rightarrow> real"
  | ForceSessionRotation string phone real real "phone \<Rightarrow> real"

fun apply_op :: "lb_op \<Rightarrow> lb_state \<Rightarrow> lb_state" where
  "apply_op (RegisterClient phone cl purpose is_primary) s = register_client s phone cl purpose is_primary"
| "apply_op (CalculateAdaptiveCooldown phone error_type now jitter) s =
     snd (calculate_adaptive_cooldown s phone error_type now jitter)"
| "apply_op (CoolDownSession phone error_type now jitter) s =
     snd (cool_down_session s phone error_type now jitter)"
| "apply_op (IsInCooldown phone now) s = snd (is_in_cooldown s phone now)"
| "apply_op (GetBestClient purpose now) s = snd (get_best_client s purpose now)"
| "apply_op (UpdateSessionPriorities now) s = update_session_priorities s now"
| "apply_op (RecordOperation phone success error floodwait_seconds operation_type now) s =
     snd (record_operation s phone success error floodwait_seconds operation_type now)"
| "apply_op (ExecuteWithPriority purpose func operation_type now record_time) s =
     snd (execute_with_priority s purpose func operation_type now record_time)"
| "apply_op (RegisterUserBehavior phone behavior_type val now) s =
     register_user_behavior s phone behavior_type val now"
| "apply_op (DetectSessionOverload phone now) s = snd (detect_session_overload s phone now)"
| "apply_op (ImplementSessionRotation purpose current_phone now rnd) s =
     snd (implement_session_rotation s purpose current_phone now rnd)"
| "apply_op (ForceSessionRotation purpose avoid_phone now jitter rnd) s =
     snd (force_session_rotation s purpose avoid_phone now jitter rnd)"

definition run :: "lb_op list \<Rightarrow> lb_state \<Rightarrow> lb_state" where
  "run ops s = fold apply_op ops s"

text \<open>
  The phone for which an operation, applied in state \<open>s\<close>, calls \<open>record_operation\<close>:
  the phone given to \<open>record_operation\<close> itself, or the session \<open>execute_with_priority\<close>
  obtains.
\<close>

fun records_for :: "lb_op \<Rightarrow> lb_state \<Rightarrow> phone option" where
  "records_for (RecordOperation phone success error floodwait_seconds operation_type now) s = Some phone"
| "records_for (ExecuteWithPriority purpose func operation_type now record_time) s =
     (case fst (get_best_client s purpose now) of
        Returned (Some phone, Some cl) \<Rightarrow> Some phone
      | _ \<Rightarrow> None)"
| "records_for _ s = None"

text \<open>No operation of the run records an operation for \<open>phone\<close>.\<close>

fun never_recorded :: "phone \<Rightarrow> lb_op list \<Rightarrow> lb_state \<Rightarrow> bool" where
  "never_recorded phone [] s = True"
| "never_recorded phone (x # xs) s =
     (records_for x s \<noteq> Some phone \<and> never_recorded phone xs (apply_op x s))"

section \<open>Reading the metrics of a session\<close>

text \<open>
  The values the code reads with \<open>metrics.get(key, default)\<close> and
  \<open>self.flood_wait_times.get(phone, [])\<close>, for a phone that may have no metrics yet.
\<close>

definition operation_timestamps_of :: "lb_state \<Rightarrow> phone \<Rightarrow> real list" where
  "operation_timestamps_of s phone =
     (case get_metrics s phone of None \<Rightarrow> [] | Some m \<Rightarrow> opt_list (operation_timestamps m))"

definition error_timestamps_of :: "lb_state \<Rightarrow> phone \<Rightarrow> real list" where
  "error_timestamps_of s phone =
     (case get_metrics s phone of None \<Rightarrow> [] | Some m \<Rightarrow> opt_list (error_timestamps m))"

definition consecutive_errors_of :: "lb_state \<Rightarrow> phone \<Rightarrow> nat" where
  "consecutive_errors_of s phone =
     (case get_metrics s phone of None \<Rightarrow> 0 | Some m \<Rightarrow> opt_nat (consecutive_errors m))"

definition flood_waits_of :: "lb_state \<Rightarrow> phone \<Rightarrow> (real \<times> int) list" where
  "flood_waits_of s phone = opt_list (flood_wait_times s phone)"

text \<open>
  Whether \<open>is_in_cooldown\<close> answers \<open>True\<close> for a phone at a clock reading, and the
  sessions of a pool that \<open>get_best_client\<close> may choose: active clients not in cooldown.
\<close>

definition cooling :: "lb_state \<Rightarrow> real \<Rightarrow> phone \<Rightarrow> bool" where
  "cooling s now phone = fst (is_in_cooldown s phone now)"

definition eligible :: "lb_state \<Rightarrow> real \<Rightarrow> phone list \<Rightarrow> phone list" where
  "eligible s now pool = filter (\<lambda>phone. active_clients s phone \<noteq> None \<and> \<not> cooling s now phone) pool"

definition status_of :: "lb_state \<Rightarrow> phone \<Rightarrow> session_status option" where
  "status_of s phone = (case get_metrics s phone of None \<Rightarrow> None | Some m \<Rightarrow> status m)"

definition operations_of :: "lb_state \<Rightarrow> phone \<Rightarrow> nat" where
  "operations_of s phone =
     (case get_metrics s phone of None \<Rightarrow> 0 | Some m \<Rightarrow> opt_nat (operations m))"

text \<open>
  The value stored under the key \<open>health_score\<close> of a session, \<open>None\<close> when the session
  has no metrics or its metrics have no such key, and the score \<open>detect_session_overload\<close>
  last stored under \<open>current_overload_score\<close>.
\<close>

definition health_score_of :: "lb_state \<Rightarrow> phone \<Rightarrow> real option" where
  "health_score_of s phone = (case get_metrics s phone of None \<Rightarrow> None | Some m \<Rightarrow> health_score m)"


text \<open>
  From state \<open>s\<close> to state \<open>s'\<close> the health score of a session is kept: metrics that
  exist stay and keep what is stored under the key; metrics that come into being store
  1.0 or nothing.
\<close>

definition health_kept :: "phone \<Rightarrow> lb_state \<Rightarrow> lb_state \<Rightarrow> bool" where
  "health_kept phone s s' =
     (case get_metrics s phone of
        None \<Rightarrow> health_score_of s' phone = None \<or> health_score_of s' phone = Some 1
      | Some m \<Rightarrow> get_metrics s' phone \<noteq> None \<and> health_score_of s' phone = health_score m)"


text \<open>Two metrics dictionaries that differ at most in the two keys of the good-behaviour streak.\<close>

definition streak_only :: "metrics \<Rightarrow> metrics \<Rightarrow> bool" where
  "streak_only m m' =
     (m' = m\<lparr>good_behavior_streak := good_behavior_streak m',
             consistent_good_behavior := consistent_good_behavior m'\<rparr>)"

text \<open>
  Two properties of the state: every phone is a key of \<open>session_metrics\<close> once (it is a
  Python dictionary), and every priority is within the bounds.
\<close>

definition keys_distinct :: "lb_state \<Rightarrow> bool" where
  "keys_distinct s = distinct (map fst (session_metrics s))"

definition priorities_in_range :: "lb_state \<Rightarrow> bool" where
  "priorities_in_range s =
     (\<forall>phone. min_priority \<le> priority_of s phone \<and> priority_of s phone \<le> max_priority)"

section \<open>Example states\<close>

text \<open>One session \<open>A\<close>, registered in the primary pool of purpose \<open>general\<close>.\<close>

definition one_session :: lb_state where
  "one_session = register_client init_state ''A'' (TelegramClient 1) ''general'' True"

text \<open>
  Three failed operations of \<open>A\<close> and then three overload checks, all at the clock
  reading 1000: the overload history of \<open>A\<close> holds three entries with one timestamp.
\<close>

definition three_failures :: lb_state where
  "three_failures = run [RecordOperation ''A'' False (Some ''boom'') 0 ''general'' 1000,
                         RecordOperation ''A'' False (Some ''boom'') 0 ''general'' 1000,
                         RecordOperation ''A'' False (Some ''boom'') 0 ''general'' 1000] one_session"

definition three_overloads :: lb_state where
  "three_overloads = run [DetectSessionOverload ''A'' 1000, DetectSessionOverload ''A'' 1000,
                          DetectSessionOverload ''A'' 1000] three_failures"

text \<open>Five flood waits of 30 seconds recorded for \<open>A\<close> within one minute.\<close>

definition five_flood_waits :: lb_state where
  "five_flood_waits = run [RecordOperation ''A'' True None 30 ''general'' 1000,
                           RecordOperation ''A'' True None 30 ''general'' 1010,
                           RecordOperation ''A'' True None 30 ''general'' 1020,
                           RecordOperation ''A'' True None 30 ''general'' 1030,
                           RecordOperation ''A'' True None 30 ''general'' 1040] one_session"

text \<open>A session whose identifier is the text \<open>flood_waits\<close> has had a flood wait.\<close>

definition flood_waits_key :: lb_state where
  "flood_waits_key = run [RecordOperation ''flood_waits'' True None 5 ''general'' 1000] one_session"




text \<open>An operation of \<open>A\<close> is recorded before \<open>A\<close> is registered.\<close>

definition recorded_then_registered :: lb_state where
  "recorded_then_registered = run [RecordOperation ''A'' True None 0 ''general'' 10,
                                   RegisterClient ''A'' (TelegramClient 1) ''general'' True] init_state"

text \<open>Session \<open>A\<close> put into cooldown at the clock reading 10.\<close>

definition cooled_session :: lb_state where
  "cooled_session = run [CoolDownSession ''A'' ''general'' 10 1] one_session"

text \<open>Two sessions \<open>A\<close> and \<open>B\<close> in the primary pool of purpose \<open>general\<close>.\<close>

definition two_sessions :: lb_state where
  "two_sessions = run [RegisterClient ''B'' (TelegramClient 2) ''general'' True] one_session"

text \<open>Ten successful operations of \<open>A\<close>, one a second from the clock reading 1000 on.\<close>

definition ten_operations :: lb_state where
  "ten_operations = run (map (\<lambda>i. RecordOperation ''A'' True None 0 ''general'' (1000 + real i)) [0..<10])
                        one_session"

section \<open>The retry wrapper honours the reported wait\<close>

lemma retry_steps_same [simp]: "retry_steps func eb rnd a a = []"
  by (simp add: retry_steps_def)

lemma retry_steps_unfold:
  "a < k \<Longrightarrow> retry_steps func eb rnd a k =
     [Call a, Sleep (wait_after eb rnd a (func a))] @ retry_steps func eb rnd (Suc a) k"
  by (simp add: retry_steps_def upt_conv_Cons)

lemma retry_steps_split:
  assumes "a \<le> i" "i \<le> k"
  shows "retry_steps func eb rnd a k = retry_steps func eb rnd a i @ retry_steps func eb rnd i k"
proof -
  from assms have "[a..<k] = [a..<i] @ [i..<k]"
    by (metis le_Suc_ex upt_add_eq_append)
  then show ?thesis by (simp add: retry_steps_def)
qed

lemma Call_in_retry_steps:
  "Call i \<in> set (retry_steps func eb rnd a k) \<Longrightarrow> a \<le> i \<and> i < k"
  by (auto simp: retry_steps_def)

lemma retry_steps_then_call:
  assumes "i < k"
  shows "\<exists>post. retry_steps func eb rnd (Suc i) k @ [Call k] = Call (Suc i) # post"
proof (cases "Suc i = k")
  case True
  then show ?thesis by simp
next
  case False
  with assms have "Suc i < k" by simp
  then show ?thesis by (simp add: retry_steps_unfold)
qed

text \<open>
  The shape of every run that enters the loop: \<open>k\<close> failed attempts, each followed by
  its sleep, then the attempt that ends the run.
\<close>

lemma safe_execute_loop_shape:
  "safe_execute_loop func n eb rnd a le tr0 = (res, trace) \<Longrightarrow> int a < n \<Longrightarrow>
   \<exists>k. a \<le> k \<and> int k < n \<and> trace = tr0 @ retry_steps func eb rnd a k @ [Call k]
       \<and> (\<forall>i. a \<le> i \<and> i < k \<longrightarrow> retryable (func i))
       \<and> (retryable (func k) \<longrightarrow> int k + 1 = n)
       \<and> res = final_result (func k)"
proof (induction func n eb rnd a le tr0 rule: safe_execute_loop.induct)
  case (1 func n eb rnd a le tr0)
  show ?case
  proof (cases "func a")
    case (Inr v)
    with "1.prems" have "trace = tr0 @ [Call a]" "res = Inr (Some v)"
      by (simp_all add: safe_execute_loop.simps[of func n eb rnd a])
    with Inr "1.prems"(2) show ?thesis
      by (intro exI[of _ a]) (auto simp: retryable_def final_result_def)
  next
    case (Inl e)
    show ?thesis
    proof (cases "retryable (func a) \<and> int (a + 1) < n")
      case False
      with Inl "1.prems" have "trace = tr0 @ [Call a]" "res = Inl e"
        by (auto simp: safe_execute_loop.simps[of func n eb rnd a] retryable_def
                 split: tg_error.splits if_splits)
      with Inl False "1.prems"(2) show ?thesis
        by (intro exI[of _ a]) (auto simp: final_result_def)
    next
      case True
      let ?tr = "tr0 @ [Call a, Sleep (wait_after eb rnd a (func a))]"
      from True Inl "1.prems" have rec:
        "safe_execute_loop func n eb rnd (a + 1) (Some e) ?tr = (res, trace)"
        by (auto simp: safe_execute_loop.simps[of func n eb rnd a] retryable_def wait_after_def
                 split: tg_error.splits if_splits)
      have "\<exists>k. a + 1 \<le> k \<and> int k < n \<and> trace = ?tr @ retry_steps func eb rnd (a + 1) k @ [Call k]
               \<and> (\<forall>i. a + 1 \<le> i \<and> i < k \<longrightarrow> retryable (func i))
               \<and> (retryable (func k) \<longrightarrow> int k + 1 = n)
               \<and> res = final_result (func k)"
      proof (cases e)
        case (FloodWaitError secs)
        with True Inl "1.prems"(2) rec show ?thesis
          using "1.IH"(1)[of e secs] by (simp add: wait_after_def)
      next
        case ServerError
        with True Inl "1.prems"(2) rec show ?thesis
          using "1.IH"(2)[of e] by (simp add: wait_after_def)
      next
        case TimedOutError
        with True Inl "1.prems"(2) rec show ?thesis
          using "1.IH"(3)[of e] by (simp add: wait_after_def)
      next
        case (OtherError m)
        with True Inl show ?thesis by (simp add: retryable_def)
      qed
      then obtain k where k: "a + 1 \<le> k" "int k < n"
        "trace = ?tr @ retry_steps func eb rnd (a + 1) k @ [Call k]"
        "\<forall>i. a + 1 \<le> i \<and> i < k \<longrightarrow> retryable (func i)"
        "retryable (func k) \<longrightarrow> int k + 1 = n" "res = final_result (func k)"
        by blast
      from k(1) have "a < k" by simp
      then have "retry_steps func eb rnd a k =
          [Call a, Sleep (wait_after eb rnd a (func a))] @ retry_steps func eb rnd (Suc a) k"
        by (rule retry_steps_unfold)
      with k(3) have "trace = tr0 @ retry_steps func eb rnd a k @ [Call k]" by simp
      moreover have "\<forall>i. a \<le> i \<and> i < k \<longrightarrow> retryable (func i)"
      proof (intro allI impI)
        fix i assume "a \<le> i \<and> i < k"
        then show "retryable (func i)" using k(4) True by (cases "i = a") auto
      qed
      ultimately show ?thesis using k(1,2,5,6) by (intro exI[of _ k]) simp
    qed
  qed
qed

text \<open>
  C6. Whenever an attempt of the wrapped operation raises a flood-wait error reporting
  \<open>W\<close> seconds and attempts remain, \<open>safe_execute\<close> sleeps exactly \<open>W\<close> seconds and then
  makes the next attempt; it never makes more than \<open>max_attempts\<close> attempts; and when
  every attempt fails with a retryable error, it raises the error of the last attempt.
\<close>

theorem safe_execute_flood_wait_contract:
  assumes run: "safe_execute func max_attempts eb rnd = (res, trace)"
  shows "(\<forall>i W. Call i \<in> set trace \<and> func i = Inl (FloodWaitError W) \<and> int i + 1 < max_attempts
            \<longrightarrow> (\<exists>pre post. trace = pre @ [Call i, Sleep (real_of_int W), Call (Suc i)] @ post))
       \<and> (\<forall>i. Call i \<in> set trace \<longrightarrow> int i < max_attempts)
       \<and> (0 < max_attempts \<and> (\<forall>i. int i < max_attempts \<longrightarrow> retryable (func i))
            \<longrightarrow> (\<exists>e. func (nat max_attempts - 1) = Inl e \<and> res = Inl e)
                \<and> Call (nat max_attempts - 1) \<in> set trace)"
proof (cases "0 < max_attempts")
  case False
  with run have "trace = []"
    by (simp add: safe_execute_def safe_execute_loop.simps[of func max_attempts eb rnd 0])
  with False show ?thesis by simp
next
  case True
  with run obtain k where k: "int k < max_attempts"
      "trace = retry_steps func eb rnd 0 k @ [Call k]"
      "\<forall>i. i < k \<longrightarrow> retryable (func i)"
      "retryable (func k) \<longrightarrow> int k + 1 = max_attempts"
      "res = final_result (func k)"
    using safe_execute_loop_shape[of func max_attempts eb rnd 0 None "[]" res trace]
    by (auto simp: safe_execute_def)
  have calls: "i \<le> k" if "Call i \<in> set trace" for i
    using that k(2) Call_in_retry_steps[of i func eb rnd 0 k] by auto
  have A: "\<exists>pre post. trace = pre @ [Call i, Sleep (real_of_int W), Call (Suc i)] @ post"
    if h: "Call i \<in> set trace" "func i = Inl (FloodWaitError W)" "int i + 1 < max_attempts" for i W
  proof -
    from h(2) have r: "retryable (func i)" by (simp add: retryable_def)
    from calls[OF h(1)] have "i \<le> k" .
    moreover have "i \<noteq> k" using r k(4) h(3) by auto
    ultimately have lt: "i < k" by simp
    have "retry_steps func eb rnd 0 k = retry_steps func eb rnd 0 i @ retry_steps func eb rnd i k"
      using lt by (intro retry_steps_split) simp_all
    also have "retry_steps func eb rnd i k =
        [Call i, Sleep (real_of_int W)] @ retry_steps func eb rnd (Suc i) k"
      using lt h(2) by (simp add: retry_steps_unfold wait_after_def)
    finally have "trace = retry_steps func eb rnd 0 i @ [Call i, Sleep (real_of_int W)]
        @ (retry_steps func eb rnd (Suc i) k @ [Call k])"
      using k(2) by simp
    moreover obtain post where "retry_steps func eb rnd (Suc i) k @ [Call k] = Call (Suc i) # post"
      using retry_steps_then_call[OF lt] by blast
    ultimately have "trace = retry_steps func eb rnd 0 i @ [Call i, Sleep (real_of_int W), Call (Suc i)] @ post"
      by simp
    then show ?thesis by blast
  qed
  have B: "int i < max_attempts" if "Call i \<in> set trace" for i
    using calls[OF that] k(1) by simp
  have C: "(\<exists>e. func (nat max_attempts - 1) = Inl e \<and> res = Inl e)
      \<and> Call (nat max_attempts - 1) \<in> set trace"
    if all: "\<forall>i. int i < max_attempts \<longrightarrow> retryable (func i)"
  proof -
    from all k(1) have "retryable (func k)" by simp
    with k(4) have keq: "k = nat max_attempts - 1" by auto
    from \<open>retryable (func k)\<close> obtain e where "func k = Inl e"
      by (cases "func k") (auto simp: retryable_def)
    with k(5) have "res = Inl e" by (simp add: final_result_def)
    with \<open>func k = Inl e\<close> keq k(2) show ?thesis by auto
  qed
  from A B C show ?thesis by blast
qed

theorem safe_execute_flood_wait_contract_witness:
  "safe_execute (\<lambda>i. if i < 2 then Inl (FloodWaitError 7) else Inr (1::nat)) 3 True (\<lambda>_. 1 / 2)
     = (Inr (Some 1), [Call 0, Sleep 7, Call 1, Sleep 7, Call 2])
   \<and> (\<exists>pre post. [Call 0, Sleep 7, Call 1, Sleep 7, Call 2]
          = pre @ [Call (Suc 0), Sleep (real_of_int 7), Call (Suc (Suc 0))] @ post)
   \<and> safe_execute (\<lambda>i. Inl (FloodWaitError 5) :: tg_error + nat) 2 True (\<lambda>_. 1 / 2)
     = (Inl (FloodWaitError 5), [Call 0, Sleep 5, Call 1])"
proof -
  let ?f = "\<lambda>i::nat. if i < 2 then Inl (FloodWaitError 7) else Inr (1::nat)"
  let ?g = "\<lambda>i::nat. Inl (FloodWaitError 5) :: tg_error + nat"
  have run1: "safe_execute ?f 3 True (\<lambda>_. 1 / 2)
      = (Inr (Some 1), [Call 0, Sleep 7, Call 1, Sleep 7, Call 2])"
    by (simp add: safe_execute_def safe_execute_loop.simps)
  have run2: "safe_execute ?g 2 True (\<lambda>_. 1 / 2) = (Inl (FloodWaitError 5), [Call 0, Sleep 5, Call 1])"
    by (simp add: safe_execute_def safe_execute_loop.simps)
  have "Call (Suc 0) \<in> set [Call 0, Sleep 7, Call 1, Sleep 7, Call 2]
      \<and> ?f (Suc 0) = Inl (FloodWaitError 7) \<and> int (Suc 0) + 1 < 3"
    by simp
  with safe_execute_flood_wait_contract[OF run1]
  have "\<exists>pre post. [Call 0, Sleep 7, Call 1, Sleep 7, Call 2]
          = pre @ [Call (Suc 0), Sleep (real_of_int 7), Call (Suc (Suc 0))] @ post"
    by blast
  with run1 run2 show ?thesis by blast
qed

section \<open>Basic facts about the state\<close>

lemma get_metrics_set_metrics:
  "get_metrics (set_metrics s p m) q = (if q = p then Some m else get_metrics s q)"
  by (simp add: get_metrics_def set_metrics_def update_conv')

lemma set_metrics_fields [simp]:
  "active_clients (set_metrics s p m) = active_clients s"
  "last_health_check (set_metrics s p m) = last_health_check s"
  "sessions (set_metrics s p m) = sessions s"
  "flood_wait_times (set_metrics s p m) = flood_wait_times s"
  "session_cooldowns (set_metrics s p m) = session_cooldowns s"
  "session_cooldown_history (set_metrics s p m) = session_cooldown_history s"
  "session_priorities (set_metrics s p m) = session_priorities s"
  "behavior_patterns (set_metrics s p m) = behavior_patterns s"
  "last_priority_update (set_metrics s p m) = last_priority_update s"
  by (simp_all add: set_metrics_def)

lemma get_metrics_updates [simp]:
  "get_metrics (s\<lparr>active_clients := a\<rparr>) p = get_metrics s p"
  "get_metrics (s\<lparr>last_health_check := b\<rparr>) p = get_metrics s p"
  "get_metrics (s\<lparr>sessions := c\<rparr>) p = get_metrics s p"
  "get_metrics (s\<lparr>flood_wait_times := d\<rparr>) p = get_metrics s p"
  "get_metrics (s\<lparr>session_cooldowns := e\<rparr>) p = get_metrics s p"
  "get_metrics (s\<lparr>session_cooldown_history := f\<rparr>) p = get_metrics s p"
  "get_metrics (s\<lparr>session_priorities := g\<rparr>) p = get_metrics s p"
  "get_metrics (s\<lparr>behavior_patterns := h\<rparr>) p = get_metrics s p"
  "get_metrics (s\<lparr>last_priority_update := i\<rparr>) p = get_metrics s p"
  by (simp_all add: get_metrics_def)

lemma priority_of_set_metrics [simp]: "priority_of (set_metrics s p m) q = priority_of s q"
  by (simp add: priority_of_def)

section \<open>Cooldown durations\<close>

lemma py_int_clamped:
  assumes "300 \<le> x" "x \<le> 3600"
  shows "300 \<le> py_int x \<and> py_int x \<le> 3600"
proof -
  from assms have "0 \<le> x" by simp
  then have "py_int x = \<lfloor>x\<rfloor>" by (simp add: py_int_def)
  moreover from assms have "300 \<le> \<lfloor>x\<rfloor>" "\<lfloor>x\<rfloor> \<le> 3600"
    by (simp_all add: le_floor_iff floor_le_iff)
  ultimately show ?thesis by simp
qed

text \<open>Whenever \<open>calculate_adaptive_cooldown\<close> returns, the duration is within the bounds.\<close>

lemma calculate_adaptive_cooldown_bounds:
  assumes "fst (calculate_adaptive_cooldown s phone error_type now jitter) = Returned d"
  shows "base_cooldown \<le> d \<and> d \<le> max_cooldown"
proof (cases "get_metrics s phone")
  case None
  with assms show ?thesis
    by (simp add: calculate_adaptive_cooldown_def base_cooldown_def max_cooldown_def)
next
  case (Some m)
  with assms obtain c where "d = py_int (min (max c 300) 3600)"
    by (auto simp: calculate_adaptive_cooldown_def Let_def base_cooldown_def max_cooldown_def
             split: sum.splits)
  then show ?thesis
    using py_int_clamped[of "min (max c 300) 3600"]
    by (simp add: base_cooldown_def max_cooldown_def)
qed

text \<open>It returns unless the overload history has three or more entries whose intervals
  sum to zero.\<close>

lemma calculate_adaptive_cooldown_returns:
  assumes "get_metrics s phone = Some m"
    and "length (opt_list (overload_history m)) < 3
         \<or> sum_list (intervals_of (map oh_timestamp (opt_list (overload_history m)))) \<noteq> 0"
  shows "\<exists>d. fst (calculate_adaptive_cooldown s phone error_type now jitter) = Returned d"
proof -
  have nofail: "pattern_step m c \<noteq> Inl e" for c e
  proof (cases "overload_history m")
    case None
    then show ?thesis by (simp add: pattern_step_def)
  next
    case (Some oh)
    show ?thesis
    proof (cases "length oh \<ge> 3")
      case False
      with Some show ?thesis by (simp add: pattern_step_def)
    next
      case True
      with assms(2) Some have nz: "sum_list (intervals_of (map oh_timestamp oh)) \<noteq> 0"
        by (simp add: opt_list_def)
      then have "intervals_of (map oh_timestamp oh) \<noteq> []" by auto
      with nz have "sum_list (intervals_of (map oh_timestamp oh))
                      / real (length (intervals_of (map oh_timestamp oh))) \<noteq> 0"
        by simp
      with Some True show ?thesis by (simp add: pattern_step_def Let_def)
    qed
  qed
  with assms(1) show ?thesis
    by (auto simp: calculate_adaptive_cooldown_def Let_def split: sum.splits)
qed

text \<open>
  C7. After three overload detections of session \<open>A\<close> at one clock reading, the
  overload history holds three equal timestamps; \<open>calculate_adaptive_cooldown\<close> then
  divides by the zero average interval and raises instead of returning a duration.
\<close>

theorem calculate_adaptive_cooldown_zero_interval:
  "fst (calculate_adaptive_cooldown three_overloads ''A'' ''general'' 1000 1) = Raised ZeroDivisionError"
  by code_simp

section \<open>Recording operations\<close>

lemma record_operation_outcome:
  "fst (record_operation s phone success error fw operation_type now) =
     (if fw > 0 \<and> flood_wait_times s ''flood_waits'' \<noteq> None \<and> flood_wait_times s phone = None
      then Raised KeyError else Raised AttributeError)"
  by (simp add: record_operation_def Let_def split: option.splits)

text \<open>The metrics of the phone after \<open>record_operation\<close>, whatever it raises.\<close>

lemma record_operation_metrics:
  fixes s phone success error fw operation_type now
  defines "m0 \<equiv> (case get_metrics s phone of None \<Rightarrow> empty_metrics | Some m \<Rightarrow> m)"
  shows "\<exists>m. get_metrics (snd (record_operation s phone success error fw operation_type now)) phone = Some m
           \<and> operation_timestamps m = Some (filter (\<lambda>t. now - t \<le> ERROR_WINDOW_SECONDS)
                                             (opt_list (operation_timestamps m0) @ [now]))
           \<and> consecutive_errors m =
               Some (if \<not> success \<and> error \<noteq> None then opt_nat (consecutive_errors m0) + 1 else 0)
           \<and> error_timestamps m =
               (if \<not> success \<and> error \<noteq> None
                then Some (filter (\<lambda>t. now - t \<le> ERROR_WINDOW_SECONDS)
                             (opt_list (error_timestamps m0) @ [now]))
                else error_timestamps m0)
           \<and> health_score m = health_score m0"
  unfolding m0_def
  by (simp add: record_operation_def Let_def get_metrics_set_metrics split: option.splits)

lemma record_operation_flood_waits:
  assumes "fw > 0"
    and "fst (record_operation s phone success error fw operation_type now) = Raised AttributeError"
  shows "flood_wait_times (snd (record_operation s phone success error fw operation_type now)) phone =
           Some (filter (\<lambda>(ts, wt). ts \<ge> now - thr_flood_wait_time_window)
                   ((if flood_wait_times s ''flood_waits'' = None then []
                     else opt_list (flood_wait_times s phone)) @ [(now, fw)]))"
  using assms
  by (auto simp: record_operation_def Let_def opt_list_def split: option.splits if_splits)

text \<open>
  What every call of \<open>record_operation\<close> does: it raises and never returns,
  \<open>AttributeError\<close> from the call of the undefined \<open>check_session_health\<close>, or
  \<open>KeyError\<close> from the flood-wait branch when a flood wait is recorded while the key
  \<open>flood_waits\<close> exists in \<open>flood_wait_times\<close> and the phone has no list there. In both
  cases the operation timestamp and the error and consecutive-error updates stay
  applied; when \<open>AttributeError\<close> is raised, the flood wait is in the window too.
\<close>

lemma record_operation_always_raises:
  "fst (record_operation s phone success error fw operation_type now) =
     (if fw > 0 \<and> flood_wait_times s ''flood_waits'' \<noteq> None \<and> flood_wait_times s phone = None
      then Raised KeyError else Raised AttributeError)
   \<and> now \<in> set (operation_timestamps_of (snd (record_operation s phone success error fw operation_type now)) phone)
   \<and> consecutive_errors_of (snd (record_operation s phone success error fw operation_type now)) phone =
       (if \<not> success \<and> error \<noteq> None then consecutive_errors_of s phone + 1 else 0)
   \<and> (\<not> success \<and> error \<noteq> None \<longrightarrow>
        now \<in> set (error_timestamps_of (snd (record_operation s phone success error fw operation_type now)) phone))
   \<and> (fw > 0 \<and> fst (record_operation s phone success error fw operation_type now) = Raised AttributeError \<longrightarrow>
        (now, fw) \<in> set (flood_waits_of (snd (record_operation s phone success error fw operation_type now)) phone))"
proof -
  let ?r = "record_operation s phone success error fw operation_type now"
  obtain m where m: "get_metrics (snd ?r) phone = Some m"
      "operation_timestamps m = Some (filter (\<lambda>t. now - t \<le> ERROR_WINDOW_SECONDS)
          (opt_list (operation_timestamps (case get_metrics s phone of None \<Rightarrow> empty_metrics | Some m \<Rightarrow> m)) @ [now]))"
      "consecutive_errors m = Some (if \<not> success \<and> error \<noteq> None
          then opt_nat (consecutive_errors (case get_metrics s phone of None \<Rightarrow> empty_metrics | Some m \<Rightarrow> m)) + 1 else 0)"
      "error_timestamps m = (if \<not> success \<and> error \<noteq> None
          then Some (filter (\<lambda>t. now - t \<le> ERROR_WINDOW_SECONDS)
             (opt_list (error_timestamps (case get_metrics s phone of None \<Rightarrow> empty_metrics | Some m \<Rightarrow> m)) @ [now]))
          else error_timestamps (case get_metrics s phone of None \<Rightarrow> empty_metrics | Some m \<Rightarrow> m))"
    using record_operation_metrics[of s phone success error fw operation_type now] by blast
  have 1: "now \<in> set (operation_timestamps_of (snd ?r) phone)"
    using m(1,2) by (simp add: operation_timestamps_of_def opt_list_def ERROR_WINDOW_SECONDS_def)
  have 2: "consecutive_errors_of (snd ?r) phone =
       (if \<not> success \<and> error \<noteq> None then consecutive_errors_of s phone + 1 else 0)"
    using m(1,3)
    by (simp add: consecutive_errors_of_def opt_nat_def empty_metrics_def split: option.splits)
  have 3: "now \<in> set (error_timestamps_of (snd ?r) phone)" if "\<not> success \<and> error \<noteq> None"
    using that m(1,4) by (simp add: error_timestamps_of_def opt_list_def ERROR_WINDOW_SECONDS_def)
  have 4: "(now, fw) \<in> set (flood_waits_of (snd ?r) phone)"
    if "fw > 0 \<and> fst ?r = Raised AttributeError"
    using that record_operation_flood_waits[of fw s phone success error operation_type now]
    by (simp add: flood_waits_of_def opt_list_def thr_flood_wait_time_window_def)
  from record_operation_outcome[of s phone success error fw operation_type now] 1 2 3 4
  show ?thesis by blast
qed

lemma record_operation_always_raises_example:
  "fst (record_operation one_session ''A'' False (Some ''boom'') 30 ''general'' 1000) = Raised AttributeError
   \<and> 1000 \<in> set (operation_timestamps_of
        (snd (record_operation one_session ''A'' False (Some ''boom'') 30 ''general'' 1000)) ''A'')
   \<and> consecutive_errors_of
        (snd (record_operation one_session ''A'' False (Some ''boom'') 30 ''general'' 1000)) ''A'' = 1
   \<and> 1000 \<in> set (error_timestamps_of
        (snd (record_operation one_session ''A'' False (Some ''boom'') 30 ''general'' 1000)) ''A'')
   \<and> (1000, 30) \<in> set (flood_waits_of
        (snd (record_operation one_session ''A'' False (Some ''boom'') 30 ''general'' 1000)) ''A'')"
proof -
  have a: "flood_wait_times one_session ''flood_waits'' = None"
    by (simp add: one_session_def register_client_def init_state_def Let_def set_metrics_def)
  have b: "consecutive_errors_of one_session ''A'' = 0"
    by code_simp
  from record_operation_always_raises[of one_session "''A''" False "Some ''boom''" 30 "''general''" 1000] a b
  show ?thesis by simp
qed

text \<open>
  C2. Not every call of \<open>record_operation\<close> reaches the undefined
  \<open>check_session_health\<close> and raises \<open>AttributeError\<close> with the flood wait recorded. The
  guard of the flood-wait branch tests the key \<open>flood_waits\<close> instead of the phone (the
  defect of C4): once a session called \<open>flood_waits\<close> has had a flood wait, a call
  that records a flood wait of five seconds for the new phone \<open>B\<close> raises \<open>KeyError\<close>
  at the subscript \<open>flood_wait_times[phone]\<close>, and no flood wait is recorded for \<open>B\<close>.
\<close>

theorem record_operation_key_error:
  "fst (record_operation flood_waits_key ''B'' True None 5 ''general'' 1001) = Raised KeyError
   \<and> flood_wait_times (snd (record_operation flood_waits_key ''B'' True None 5 ''general'' 1001)) ''B''
       = None
   \<and> flood_waits_of (snd (record_operation flood_waits_key ''B'' True None 5 ''general'' 1001)) ''B''
       = []"
  by code_simp

text \<open>
  C4. Five flood waits recorded for session \<open>A\<close> within one minute leave one entry in
  its flood-wait window: the guard of \<open>record_operation\<close> tests the key \<open>flood_waits\<close>
  instead of the phone and empties the list on every call. \<open>detect_session_overload\<close>
  then counts one flood wait, below the threshold of five, and reports no overload.
\<close>

theorem record_operation_drops_flood_waits:
  "flood_waits_of five_flood_waits ''A'' = [(1040, 30)]
   \<and> fst (detect_session_overload five_flood_waits ''A'' 1050) = False"
  by code_simp

text \<open>In general: unless the key \<open>flood_waits\<close> exists, the window holds the last event only.\<close>

lemma record_operation_flood_window_reset:
  assumes "fw > 0" and "flood_wait_times s ''flood_waits'' = None"
  shows "flood_waits_of (snd (record_operation s phone success error fw operation_type now)) phone
           = [(now, fw)]"
proof -
  from assms have "fst (record_operation s phone success error fw operation_type now) = Raised AttributeError"
    by (simp add: record_operation_outcome)
  from record_operation_flood_waits[OF assms(1) this] assms(2) show ?thesis
    by (simp add: flood_waits_of_def opt_list_def thr_flood_wait_time_window_def)
qed

section \<open>Executing with priority\<close>

lemma execute_with_priority_records:
  assumes "get_best_client s purpose now = (Returned (Some phone, Some cl), s1)"
  shows "snd (execute_with_priority s purpose func operation_type now record_time) =
         snd (record_operation s1 phone (outcome_success (func cl)) (outcome_error (func cl))
                (outcome_floodwait (func cl)) operation_type record_time)"
    and "\<exists>e. fst (execute_with_priority s purpose func operation_type now record_time) = Raised e
           \<and> fst (record_operation s1 phone (outcome_success (func cl)) (outcome_error (func cl))
                (outcome_floodwait (func cl)) operation_type record_time) = Raised e"
proof -
  have r: "\<exists>e. fst (record_operation s1 phone su er fw operation_type record_time) = Raised e" for su er fw
    by (simp add: record_operation_outcome)
  show "snd (execute_with_priority s purpose func operation_type now record_time) =
         snd (record_operation s1 phone (outcome_success (func cl)) (outcome_error (func cl))
                (outcome_floodwait (func cl)) operation_type record_time)"
    using assms
    by (cases "func cl")
       (auto simp: execute_with_priority_def outcome_success_def outcome_error_def
                   outcome_floodwait_def split: prod.splits outcome.splits)
  show "\<exists>e. fst (execute_with_priority s purpose func operation_type now record_time) = Raised e
           \<and> fst (record_operation s1 phone (outcome_success (func cl)) (outcome_error (func cl))
                (outcome_floodwait (func cl)) operation_type record_time) = Raised e"
  proof (cases "func cl")
    case (OpReturns x)
    obtain e where "fst (record_operation s1 phone True None 0 operation_type record_time) = Raised e"
      using r by blast
    with assms OpReturns show ?thesis
      by (auto simp: execute_with_priority_def outcome_success_def outcome_error_def
                     outcome_floodwait_def split: prod.splits outcome.splits)
  next
    case (OpRaises msg)
    obtain e where "fst (record_operation s1 phone False (Some msg) (extract_floodwait msg)
                           operation_type record_time) = Raised e"
      using r by blast
    with assms OpRaises show ?thesis
      by (auto simp: execute_with_priority_def outcome_success_def outcome_error_def
                     outcome_floodwait_def split: prod.splits outcome.splits)
  next
    case (OpRaisesBase msg)
    obtain e where "fst (record_operation s1 phone True None 0 operation_type record_time) = Raised e"
      using r by blast
    with assms OpRaisesBase show ?thesis
      by (auto simp: execute_with_priority_def outcome_success_def outcome_error_def
                     outcome_floodwait_def split: prod.splits outcome.splits)
  qed
qed

text \<open>
  What \<open>execute_with_priority\<close> does when it obtains a client: the state it leaves is
  the state \<open>record_operation\<close> leaves for the chosen session with the values the
  \<open>finally\<close> block passes. The operation's timestamp is in the session's window, the
  consecutive-error counter is reset or advanced, a caught failure is in the error
  window, and a flood wait is in the flood-wait window whenever \<open>record_operation\<close> got
  as far as its final health check.
\<close>

lemma execute_with_priority_always_records:
  assumes "get_best_client s purpose now = (Returned (Some phone, Some cl), s1)"
  shows "snd (execute_with_priority s purpose func operation_type now record_time) =
           snd (record_operation s1 phone (outcome_success (func cl)) (outcome_error (func cl))
                  (outcome_floodwait (func cl)) operation_type record_time)
       \<and> record_time \<in> set (operation_timestamps_of
            (snd (execute_with_priority s purpose func operation_type now record_time)) phone)
       \<and> consecutive_errors_of
            (snd (execute_with_priority s purpose func operation_type now record_time)) phone =
           (if outcome_success (func cl) then 0 else consecutive_errors_of s1 phone + 1)
       \<and> (\<not> outcome_success (func cl) \<longrightarrow>
            record_time \<in> set (error_timestamps_of
              (snd (execute_with_priority s purpose func operation_type now record_time)) phone))
       \<and> (outcome_floodwait (func cl) > 0
            \<and> fst (execute_with_priority s purpose func operation_type now record_time) = Raised AttributeError \<longrightarrow>
            (record_time, outcome_floodwait (func cl)) \<in> set (flood_waits_of
              (snd (execute_with_priority s purpose func operation_type now record_time)) phone))"
proof -
  let ?su = "outcome_success (func cl)" and ?er = "outcome_error (func cl)"
    and ?fw = "outcome_floodwait (func cl)"
  let ?rec = "record_operation s1 phone ?su ?er ?fw operation_type record_time"
  let ?ex = "execute_with_priority s purpose func operation_type now record_time"
  have st: "snd ?ex = snd ?rec" by (rule execute_with_priority_records(1)[OF assms])
  obtain e where e: "fst ?ex = Raised e" "fst ?rec = Raised e"
    using execute_with_priority_records(2)[OF assms] by blast
  obtain m where m: "get_metrics (snd ?rec) phone = Some m"
      "operation_timestamps m = Some (filter (\<lambda>t. record_time - t \<le> ERROR_WINDOW_SECONDS)
          (opt_list (operation_timestamps (case get_metrics s1 phone of None \<Rightarrow> empty_metrics | Some m \<Rightarrow> m))
             @ [record_time]))"
      "consecutive_errors m = Some (if \<not> ?su \<and> ?er \<noteq> None
          then opt_nat (consecutive_errors (case get_metrics s1 phone of None \<Rightarrow> empty_metrics | Some m \<Rightarrow> m)) + 1
          else 0)"
      "error_timestamps m = (if \<not> ?su \<and> ?er \<noteq> None
          then Some (filter (\<lambda>t. record_time - t \<le> ERROR_WINDOW_SECONDS)
             (opt_list (error_timestamps (case get_metrics s1 phone of None \<Rightarrow> empty_metrics | Some m \<Rightarrow> m))
                @ [record_time]))
          else error_timestamps (case get_metrics s1 phone of None \<Rightarrow> empty_metrics | Some m \<Rightarrow> m))"
    using record_operation_metrics[of s1 phone ?su ?er ?fw operation_type record_time] by blast
  have fail: "(\<not> ?su \<and> ?er \<noteq> None) = (\<not> ?su)"
    by (cases "func cl") (simp_all add: outcome_success_def outcome_error_def)
  have 1: "record_time \<in> set (operation_timestamps_of (snd ?ex) phone)"
    using m(1,2) st by (simp add: operation_timestamps_of_def opt_list_def ERROR_WINDOW_SECONDS_def)
  have 2: "consecutive_errors_of (snd ?ex) phone =
      (if ?su then 0 else consecutive_errors_of s1 phone + 1)"
    using m(1,3) st fail
    by (simp add: consecutive_errors_of_def opt_nat_def empty_metrics_def split: option.splits)
  have 3: "record_time \<in> set (error_timestamps_of (snd ?ex) phone)" if "\<not> ?su"
    using that m(1,4) st fail
    by (simp add: error_timestamps_of_def opt_list_def ERROR_WINDOW_SECONDS_def)
  have 4: "(record_time, ?fw) \<in> set (flood_waits_of (snd ?ex) phone)"
    if "?fw > 0 \<and> fst ?ex = Raised AttributeError"
  proof -
    from that e have "fst ?rec = Raised AttributeError" by simp
    from record_operation_flood_waits[OF _ this] that st show ?thesis
      by (simp add: flood_waits_of_def opt_list_def thr_flood_wait_time_window_def)
  qed
  from st 1 2 3 4 show ?thesis by blast
qed

lemma execute_with_priority_always_records_example:
  "fst (get_best_client one_session ''general'' 20) = Returned (Some ''A'', Some (TelegramClient 1))
   \<and> 25 \<in> set (operation_timestamps_of
        (snd (execute_with_priority one_session ''general'' (\<lambda>c. OpRaises ''FloodWait: 7 seconds'' :: unit op_outcome)
                ''general'' 20 25)) ''A'')
   \<and> consecutive_errors_of
        (snd (execute_with_priority one_session ''general'' (\<lambda>c. OpRaises ''FloodWait: 7 seconds'' :: unit op_outcome)
                ''general'' 20 25)) ''A'' = 1
   \<and> 25 \<in> set (error_timestamps_of
        (snd (execute_with_priority one_session ''general'' (\<lambda>c. OpRaises ''FloodWait: 7 seconds'' :: unit op_outcome)
                ''general'' 20 25)) ''A'')
   \<and> (25, 7) \<in> set (flood_waits_of
        (snd (execute_with_priority one_session ''general'' (\<lambda>c. OpRaises ''FloodWait: 7 seconds'' :: unit op_outcome)
                ''general'' 20 25)) ''A'')"
proof -
  let ?f = "\<lambda>c::client. OpRaises ''FloodWait: 7 seconds'' :: unit op_outcome"
  have g: "fst (get_best_client one_session ''general'' 20) = Returned (Some ''A'', Some (TelegramClient 1))"
    by code_simp
  then have g': "get_best_client one_session ''general'' 20 =
      (Returned (Some ''A'', Some (TelegramClient 1)), snd (get_best_client one_session ''general'' 20))"
    by (metis prod.collapse)
  have a: "\<not> outcome_success (?f (TelegramClient 1))" "outcome_floodwait (?f (TelegramClient 1)) = 7"
    by code_simp+
  have b: "consecutive_errors_of (snd (get_best_client one_session ''general'' 20)) ''A'' = 0"
    by code_simp
  have c: "fst (execute_with_priority one_session ''general'' ?f ''general'' 20 25) = Raised AttributeError"
    by code_simp
  note th = execute_with_priority_always_records[OF g', of ?f "''general''" 25]
  have 1: "25 \<in> set (operation_timestamps_of
      (snd (execute_with_priority one_session ''general'' ?f ''general'' 20 25)) ''A'')"
    using th[THEN conjunct2, THEN conjunct1] .
  have 2: "consecutive_errors_of
      (snd (execute_with_priority one_session ''general'' ?f ''general'' 20 25)) ''A'' = 1"
    using th[THEN conjunct2, THEN conjunct2, THEN conjunct1] a(1) b by simp
  have 3: "25 \<in> set (error_timestamps_of
      (snd (execute_with_priority one_session ''general'' ?f ''general'' 20 25)) ''A'')"
    using th[THEN conjunct2, THEN conjunct2, THEN conjunct2, THEN conjunct1] a(1) by blast
  have 4: "(25, 7) \<in> set (flood_waits_of
      (snd (execute_with_priority one_session ''general'' ?f ''general'' 20 25)) ''A'')"
    using th[THEN conjunct2, THEN conjunct2, THEN conjunct2, THEN conjunct2] a(2) c by simp
  from g 1 2 3 4 show ?thesis by blast
qed

section \<open>The health score is never written\<close>

lemma health_of_set_metrics:
  "health_of (set_metrics s p m) q =
     (if q = p then (case health_score m of None \<Rightarrow> 1 | Some h \<Rightarrow> h) else health_of s q)"
  by (simp add: health_of_def get_metrics_set_metrics)

lemma health_of_updates [simp]:
  "health_of (s\<lparr>active_clients := a\<rparr>) p = health_of s p"
  "health_of (s\<lparr>last_health_check := b\<rparr>) p = health_of s p"
  "health_of (s\<lparr>sessions := c\<rparr>) p = health_of s p"
  "health_of (s\<lparr>flood_wait_times := d\<rparr>) p = health_of s p"
  "health_of (s\<lparr>session_cooldowns := e\<rparr>) p = health_of s p"
  "health_of (s\<lparr>session_cooldown_history := f\<rparr>) p = health_of s p"
  "health_of (s\<lparr>session_priorities := g\<rparr>) p = health_of s p"
  "health_of (s\<lparr>behavior_patterns := h\<rparr>) p = health_of s p"
  "health_of (s\<lparr>last_priority_update := i\<rparr>) p = health_of s p"
  by (simp_all add: health_of_def)

lemma health_of_same_metrics:
  "get_metrics s p = Some m \<Longrightarrow> health_score m' = health_score m \<Longrightarrow>
   health_of (set_metrics s p m') q = health_of s q"
  by (simp add: health_of_def get_metrics_set_metrics)

lemma health_register_client:
  "health_of (register_client s phone cl purpose is_primary) q = health_of s q"
  by (simp add: register_client_def Let_def health_of_set_metrics registered_metrics_def)
     (simp add: health_of_def)

lemma health_calculate_adaptive_cooldown:
  "health_of (snd (calculate_adaptive_cooldown s phone error_type now jitter)) q = health_of s q"
  by (simp add: calculate_adaptive_cooldown_def Let_def split: option.splits sum.splits)

lemma calculate_adaptive_cooldown_metrics:
  "get_metrics (snd (calculate_adaptive_cooldown s phone error_type now jitter)) q = get_metrics s q"
  by (simp add: calculate_adaptive_cooldown_def Let_def split: option.splits sum.splits)

lemma health_cool_down_session:
  "health_of (snd (cool_down_session s phone error_type now jitter)) q = health_of s q"
proof (cases "calculate_adaptive_cooldown s phone error_type now jitter")
  case (Pair r s1)
  have h: "health_of s1 q = health_of s q" and g: "get_metrics s1 phone = get_metrics s phone"
    using health_calculate_adaptive_cooldown[of s phone error_type now jitter q]
      calculate_adaptive_cooldown_metrics[of s phone error_type now jitter phone] Pair
    by simp_all
  show ?thesis
  proof (cases r)
    case (Raised e)
    with Pair h show ?thesis by (simp add: cool_down_session_def)
  next
    case (Returned d)
    with Pair h show ?thesis
      by (cases "get_metrics s1 phone")
         (simp_all add: cool_down_session_def Let_def health_of_same_metrics)
  qed
qed

lemma health_is_in_cooldown:
  "health_of (snd (is_in_cooldown s phone now)) q = health_of s q"
  by (simp add: is_in_cooldown_def split: option.splits)

section \<open>What the priority update changes\<close>

lemma streak_only_refl [simp]: "streak_only m m"
  by (simp add: streak_only_def)

lemma streak_only_trans: "streak_only a b \<Longrightarrow> streak_only b c \<Longrightarrow> streak_only a c"
  by (cases a, cases b, cases c) (simp add: streak_only_def)

lemma streak_only_track_consistency [simp]: "streak_only m (track_consistency m a b)"
  by (simp add: streak_only_def track_consistency_def Let_def)

lemma streak_only_fields:
  assumes "streak_only m m'"
  shows "status m' = status m" "health_score m' = health_score m" "operations m' = operations m"
    "operation_timestamps m' = operation_timestamps m" "error_timestamps m' = error_timestamps m"
    "consecutive_errors m' = consecutive_errors m" "response_times m' = response_times m"
    "overload_history m' = overload_history m"
proof -
  from assms obtain a b where "m' = m\<lparr>good_behavior_streak := a, consistent_good_behavior := b\<rparr>"
    unfolding streak_only_def by blast
  then show "status m' = status m" "health_score m' = health_score m" "operations m' = operations m"
    "operation_timestamps m' = operation_timestamps m" "error_timestamps m' = error_timestamps m"
    "consecutive_errors m' = consecutive_errors m" "response_times m' = response_times m"
    "overload_history m' = overload_history m"
    by simp_all
qed

lemma update_priority_for_fields [simp]:
  "active_clients (update_priority_for t p s) = active_clients s"
  "last_health_check (update_priority_for t p s) = last_health_check s"
  "sessions (update_priority_for t p s) = sessions s"
  "flood_wait_times (update_priority_for t p s) = flood_wait_times s"
  "session_cooldowns (update_priority_for t p s) = session_cooldowns s"
  "session_cooldown_history (update_priority_for t p s) = session_cooldown_history s"
  "behavior_patterns (update_priority_for t p s) = behavior_patterns s"
  "last_priority_update (update_priority_for t p s) = last_priority_update s"
  by (simp_all add: update_priority_for_def Let_def split: option.splits prod.splits)

lemma update_priority_for_metrics:
  "rel_option streak_only (get_metrics s q) (get_metrics (update_priority_for t p s) q)"
  by (cases "get_metrics s q")
     (auto simp: update_priority_for_def Let_def get_metrics_set_metrics split: option.splits prod.splits)

lemma update_priority_for_other:
  "q \<noteq> p \<Longrightarrow> session_priorities (update_priority_for t p s) q = session_priorities s q"
  by (simp add: update_priority_for_def Let_def split: option.splits prod.splits)

lemma fold_update_priority_for_fields [simp]:
  "active_clients (fold (update_priority_for t) ps s) = active_clients s"
  "last_health_check (fold (update_priority_for t) ps s) = last_health_check s"
  "sessions (fold (update_priority_for t) ps s) = sessions s"
  "flood_wait_times (fold (update_priority_for t) ps s) = flood_wait_times s"
  "session_cooldowns (fold (update_priority_for t) ps s) = session_cooldowns s"
  "session_cooldown_history (fold (update_priority_for t) ps s) = session_cooldown_history s"
  "behavior_patterns (fold (update_priority_for t) ps s) = behavior_patterns s"
  "last_priority_update (fold (update_priority_for t) ps s) = last_priority_update s"
  by (induction ps arbitrary: s; simp)+

lemma fold_update_priority_for_metrics:
  "rel_option streak_only (get_metrics s q) (get_metrics (fold (update_priority_for t) ps s) q)"
proof (induction ps arbitrary: s)
  case Nil
  show ?case by (cases "get_metrics s q") simp_all
next
  case (Cons p ps)
  have a: "rel_option streak_only (get_metrics s q) (get_metrics (update_priority_for t p s) q)"
    by (rule update_priority_for_metrics)
  have b: "rel_option streak_only (get_metrics (update_priority_for t p s) q)
      (get_metrics (fold (update_priority_for t) ps (update_priority_for t p s)) q)"
    by (rule Cons.IH)
  from a b show ?case
    by (cases "get_metrics s q"; cases "get_metrics (update_priority_for t p s) q";
        cases "get_metrics (fold (update_priority_for t) ps (update_priority_for t p s)) q")
       (auto intro: streak_only_trans)
qed

lemma update_session_priorities_fields [simp]:
  "active_clients (update_session_priorities s t) = active_clients s"
  "last_health_check (update_session_priorities s t) = last_health_check s"
  "sessions (update_session_priorities s t) = sessions s"
  "flood_wait_times (update_session_priorities s t) = flood_wait_times s"
  "session_cooldowns (update_session_priorities s t) = session_cooldowns s"
  "session_cooldown_history (update_session_priorities s t) = session_cooldown_history s"
  "behavior_patterns (update_session_priorities s t) = behavior_patterns s"
  "last_priority_update (update_session_priorities s t) = last_priority_update s"
  by (simp_all add: update_session_priorities_def)

lemma update_session_priorities_metrics:
  "rel_option streak_only (get_metrics s q) (get_metrics (update_session_priorities s t) q)"
  by (simp add: update_session_priorities_def fold_update_priority_for_metrics)

lemma health_of_streak_only:
  "rel_option streak_only (get_metrics s q) (get_metrics s' q) \<Longrightarrow> health_of s' q = health_of s q"
  by (cases "get_metrics s q"; cases "get_metrics s' q")
     (auto simp: health_of_def dest: streak_only_fields(2))

lemma status_of_streak_only:
  "rel_option streak_only (get_metrics s q) (get_metrics s' q) \<Longrightarrow> status_of s' q = status_of s q"
  by (cases "get_metrics s q"; cases "get_metrics s' q")
     (auto simp: status_of_def dest: streak_only_fields(1))

lemma health_update_session_priorities:
  "health_of (update_session_priorities s t) q = health_of s q"
  by (rule health_of_streak_only[OF update_session_priorities_metrics])

section \<open>What the selection loops change\<close>

lemma cooling_alt:
  "cooling s now phone = (case session_cooldowns s phone of None \<Rightarrow> False | Some u \<Rightarrow> \<not> now > u)"
  by (simp add: cooling_def is_in_cooldown_def split: option.splits)

lemma is_in_cooldown_fst: "fst (is_in_cooldown s phone now) = cooling s now phone"
  by (simp add: cooling_def)

lemma is_in_cooldown_state:
  "snd (is_in_cooldown s phone now) =
     s\<lparr>session_cooldowns := session_cooldowns (snd (is_in_cooldown s phone now))\<rparr>"
  by (simp add: is_in_cooldown_def split: option.splits)

lemma is_in_cooldown_cooling [simp]:
  "cooling (snd (is_in_cooldown s phone now)) now q = cooling s now q"
  by (simp add: cooling_alt is_in_cooldown_def split: option.splits)

lemma is_in_cooldown_keeps_active:
  "session_cooldowns s q = Some u \<Longrightarrow> \<not> now > u \<Longrightarrow>
   session_cooldowns (snd (is_in_cooldown s phone now)) q = Some u"
  by (auto simp: is_in_cooldown_def split: option.splits)

lemma collect_available_state:
  "snd (collect_available b now ps s) =
     s\<lparr>session_cooldowns := session_cooldowns (snd (collect_available b now ps s))\<rparr>"
proof (induction ps arbitrary: s)
  case Nil
  show ?case by simp
next
  case (Cons p ps)
  obtain c s1 where i: "is_in_cooldown s p now = (c, s1)" by (cases "is_in_cooldown s p now")
  then have s1: "s1 = s\<lparr>session_cooldowns := session_cooldowns s1\<rparr>"
    using is_in_cooldown_state[of s p now] by simp
  have ih: "snd (collect_available b now ps s1) =
      s1\<lparr>session_cooldowns := session_cooldowns (snd (collect_available b now ps s1))\<rparr>"
    by (rule Cons.IH)
  have ih': "snd (collect_available b now ps s1) =
      s\<lparr>session_cooldowns := session_cooldowns (snd (collect_available b now ps s1))\<rparr>"
    by (subst ih, subst s1) simp
  show ?case
  proof (cases "active_clients s p \<noteq> None")
    case False
    then show ?thesis using Cons.IH[of s] by simp
  next
    case True
    with i ih' show ?thesis
      by (cases c) (auto split: prod.splits)
  qed
qed

lemma priority_of_updates [simp]:
  "priority_of (s\<lparr>active_clients := a\<rparr>) p = priority_of s p"
  "priority_of (s\<lparr>last_health_check := b\<rparr>) p = priority_of s p"
  "priority_of (s\<lparr>sessions := c\<rparr>) p = priority_of s p"
  "priority_of (s\<lparr>flood_wait_times := d\<rparr>) p = priority_of s p"
  "priority_of (s\<lparr>session_cooldowns := e\<rparr>) p = priority_of s p"
  "priority_of (s\<lparr>session_cooldown_history := f\<rparr>) p = priority_of s p"
  "priority_of (s\<lparr>behavior_patterns := h\<rparr>) p = priority_of s p"
  "priority_of (s\<lparr>last_priority_update := i\<rparr>) p = priority_of s p"
  by (simp_all add: priority_of_def)

lemma combined_score_cooldowns [simp]:
  "combined_score (s\<lparr>session_cooldowns := e\<rparr>) b p = combined_score s b p"
  by (simp add: combined_score_def)

lemma status_of_updates [simp]:
  "status_of (s\<lparr>session_cooldowns := e\<rparr>) p = status_of s p"
  "status_of (s\<lparr>last_priority_update := i\<rparr>) p = status_of s p"
  by (simp_all add: status_of_def)

lemma cooling_cong:
  "session_cooldowns s' = session_cooldowns s \<Longrightarrow> cooling s' now p = cooling s now p"
  by (simp add: cooling_alt)

lemma eligible_cong:
  "active_clients s' = active_clients s \<Longrightarrow> (\<And>p. cooling s' now p = cooling s now p) \<Longrightarrow>
   eligible s' now ps = eligible s now ps"
  by (simp add: eligible_def)

lemma collect_available_result:
  "fst (collect_available b now ps s) = map (\<lambda>p. (combined_score s b p, p)) (eligible s now ps)
   \<and> (\<forall>q. cooling (snd (collect_available b now ps s)) now q = cooling s now q)
   \<and> (\<forall>q u. session_cooldowns s q = Some u \<and> \<not> now > u
          \<longrightarrow> session_cooldowns (snd (collect_available b now ps s)) q = Some u)"
proof (induction ps arbitrary: s)
  case Nil
  show ?case by (simp add: eligible_def)
next
  case (Cons p ps)
  show ?case
  proof (cases "active_clients s p \<noteq> None")
    case False
    then show ?thesis using Cons.IH[of s] by (simp add: eligible_def)
  next
    case True
    obtain c s1 where i: "is_in_cooldown s p now = (c, s1)" by (cases "is_in_cooldown s p now")
    then have c: "c = cooling s now p" and s1: "s1 = snd (is_in_cooldown s p now)"
      by (simp_all add: cooling_def)
    have st: "s1 = s\<lparr>session_cooldowns := session_cooldowns s1\<rparr>"
      unfolding s1 by (rule is_in_cooldown_state)
    have act: "active_clients s1 = active_clients s" by (subst st) simp
    have cool: "cooling s1 now q = cooling s now q" for q
      unfolding s1 by simp
    have el: "eligible s1 now ps = eligible s now ps"
      by (rule eligible_cong[OF act cool])
    have sc: "combined_score s1 b q = combined_score s b q" for q
      by (subst st) simp
    have keep: "session_cooldowns s1 q = Some u" if "session_cooldowns s q = Some u" "\<not> now > u" for q u
      unfolding s1 using that by (rule is_in_cooldown_keeps_active)
    note ih = Cons.IH[of s1]
    show ?thesis
    proof (cases c)
      case True
      with i \<open>active_clients s p \<noteq> None\<close> c el cool ih keep sc show ?thesis
        by (auto simp: eligible_def)
    next
      case False
      with i \<open>active_clients s p \<noteq> None\<close> c el cool ih keep sc show ?thesis
        by (auto simp: eligible_def split: prod.splits)
    qed
  qed
qed

lemma last_resort_cong:
  assumes "active_clients s' = active_clients s" and "\<And>p. status_of s' p = status_of s p"
    and "\<And>p. (get_metrics s' p = None) = (get_metrics s p = None)"
  shows "last_resort s' ps = last_resort s ps"
proof (induction ps)
  case Nil
  show ?case by simp
next
  case (Cons p ps)
  show ?case
  proof (cases "active_clients s p")
    case None
    with assms(1) Cons show ?thesis by simp
  next
    case (Some cl)
    show ?thesis
    proof (cases "get_metrics s p")
      case None
      with assms(3)[of p] have "get_metrics s' p = None" by simp
      with None Some assms(1) Cons show ?thesis by simp
    next
      case m: (Some m)
      with assms(3)[of p] obtain m' where m': "get_metrics s' p = Some m'" by auto
      with m assms(2)[of p] have "status m' = status m" by (simp add: status_of_def)
      with m m' Some assms(1) Cons show ?thesis by (simp split: option.splits)
    qed
  qed
qed

lemma last_resort_returns:
  "last_resort s ps = Returned (Some p, c) \<Longrightarrow>
   p \<in> set ps \<and> (\<exists>cl. c = Some cl \<and> active_clients s p = Some cl)
   \<and> (\<exists>st. status_of s p = Some st \<and> st \<noteq> STATUS_COOLING)"
proof (induction ps)
  case Nil
  then show ?case by simp
next
  case (Cons q ps)
  show ?case
  proof (cases "active_clients s q")
    case None
    with Cons show ?thesis by auto
  next
    case (Some cl)
    show ?thesis
    proof (cases "get_metrics s q")
      case None
      with Some Cons show ?thesis by auto
    next
      case m: (Some m)
      show ?thesis
      proof (cases "status m")
        case None
        with m Some Cons.prems show ?thesis by simp
      next
        case st: (Some st)
        show ?thesis
        proof (cases "st = STATUS_COOLING")
          case True
          with st m Some Cons show ?thesis by auto
        next
          case False
          with st m Some Cons.prems have "p = q" "c = Some cl" by simp_all
          with False st m Some show ?thesis by (simp add: status_of_def)
        qed
      qed
    qed
  qed
qed

lemma last_resort_all_cooling:
  assumes "\<forall>p \<in> set ps. active_clients s p \<noteq> None \<and> get_metrics s p \<noteq> None
             \<longrightarrow> status_of s p = Some STATUS_COOLING"
  shows "last_resort s ps = Returned (None, None)"
  using assms by (induction ps) (auto simp: status_of_def split: option.splits)

lemma last_resort_shape:
  "last_resort s ps = Returned (po, c) \<Longrightarrow> (po = None \<and> c = None) \<or> (po \<noteq> None \<and> c \<noteq> None)"
  by (induction ps) (auto split: option.splits if_splits)

text \<open>The state \<open>get_best_client\<close> works on after its priority update.\<close>

lemma update_priorities_if_due_fields [simp]:
  "active_clients (update_priorities_if_due s t) = active_clients s"
  "last_health_check (update_priorities_if_due s t) = last_health_check s"
  "sessions (update_priorities_if_due s t) = sessions s"
  "flood_wait_times (update_priorities_if_due s t) = flood_wait_times s"
  "session_cooldowns (update_priorities_if_due s t) = session_cooldowns s"
  "session_cooldown_history (update_priorities_if_due s t) = session_cooldown_history s"
  "behavior_patterns (update_priorities_if_due s t) = behavior_patterns s"
  by (simp_all add: update_priorities_if_due_def)

lemma update_priorities_if_due_metrics:
  "rel_option streak_only (get_metrics s q) (get_metrics (update_priorities_if_due s t) q)"
proof (cases "t - last_priority_update s > 600")
  case True
  then show ?thesis
    using update_session_priorities_metrics[of s q t] by (simp add: update_priorities_if_due_def)
next
  case False
  then show ?thesis by (cases "get_metrics s q") (simp_all add: update_priorities_if_due_def)
qed

lemma update_priorities_if_due_status [simp]:
  "status_of (update_priorities_if_due s t) q = status_of s q"
  by (rule status_of_streak_only[OF update_priorities_if_due_metrics])

lemma update_priorities_if_due_present:
  "(get_metrics (update_priorities_if_due s t) q = None) = (get_metrics s q = None)"
  using update_priorities_if_due_metrics[of s q t]
  by (cases "get_metrics s q"; cases "get_metrics (update_priorities_if_due s t) q") simp_all

lemma pools_for_update [simp]: "pools_for (update_priorities_if_due s t) purpose = pools_for s purpose"
  by (simp add: pools_for_def split: option.splits)

text \<open>
  What \<open>get_best_client\<close> returns once the health check is not due, in terms of the
  eligible sessions of the state it was called in.
\<close>

lemma get_best_client_result:
  assumes "\<not> now - last_health_check s > HEALTH_CHECK_INTERVAL"
  defines "s1 \<equiv> update_priorities_if_due s now"
  shows "fst (get_best_client s purpose now) =
     (case pools_for s purpose of
        None \<Rightarrow> Returned (None, None)
      | Some pl \<Rightarrow>
          (case rev (sort (if eligible s now (primary pl) \<noteq> []
                           then map (\<lambda>p. (combined_score s1 False p, p)) (eligible s now (primary pl))
                           else map (\<lambda>p. (combined_score s1 True p, p)) (eligible s now (backup pl)))) of
             (best_score, best_phone) # _ \<Rightarrow> Returned (Some best_phone, active_clients s best_phone)
           | [] \<Rightarrow> last_resort s (primary pl @ backup pl)))"
    and "snd (get_best_client s purpose now) =
           s1\<lparr>session_cooldowns := session_cooldowns (snd (get_best_client s purpose now))\<rparr>"
    and "cooling (snd (get_best_client s purpose now)) now q = cooling s now q"
    and "session_cooldowns s q = Some u \<and> \<not> now > u \<longrightarrow>
           session_cooldowns (snd (get_best_client s purpose now)) q = Some u"
proof -
  have el1: "eligible s1 now ps = eligible s now ps" for ps
    unfolding s1_def by (rule eligible_cong) (simp_all add: cooling_alt)
  have lr1: "last_resort s1 ps = last_resort s ps" for ps
    unfolding s1_def
    by (rule last_resort_cong) (simp_all add: update_priorities_if_due_present)
  have cool1: "cooling s1 now q = cooling s now q" for q
    unfolding s1_def by (simp add: cooling_alt)
  have cd1: "session_cooldowns s1 = session_cooldowns s" unfolding s1_def by simp
  have p1: "pools_for s1 purpose = pools_for s purpose" unfolding s1_def by simp
  let ?A = "fst (get_best_client s purpose now) =
     (case pools_for s purpose of
        None \<Rightarrow> Returned (None, None)
      | Some pl \<Rightarrow>
          (case rev (sort (if eligible s now (primary pl) \<noteq> []
                           then map (\<lambda>p. (combined_score s1 False p, p)) (eligible s now (primary pl))
                           else map (\<lambda>p. (combined_score s1 True p, p)) (eligible s now (backup pl)))) of
             (best_score, best_phone) # _ \<Rightarrow> Returned (Some best_phone, active_clients s best_phone)
           | [] \<Rightarrow> last_resort s (primary pl @ backup pl)))"
  let ?B = "snd (get_best_client s purpose now) =
           s1\<lparr>session_cooldowns := session_cooldowns (snd (get_best_client s purpose now))\<rparr>"
  let ?C = "cooling (snd (get_best_client s purpose now)) now q = cooling s now q"
  let ?D = "session_cooldowns s q = Some u \<and> \<not> now > u \<longrightarrow>
           session_cooldowns (snd (get_best_client s purpose now)) q = Some u"
  have "?A \<and> ?B \<and> ?C \<and> ?D"
  proof (cases "pools_for s purpose")
    case None
    with assms(1) have A: ?A
      by (simp add: get_best_client_def Let_def s1_def[symmetric] p1)
    from None assms(1) have B: ?B
      by (simp add: get_best_client_def Let_def s1_def[symmetric] p1)
    from None assms(1) cool1 have C: ?C
      by (simp add: get_best_client_def Let_def s1_def[symmetric] p1)
    from None assms(1) cd1 have D: ?D
      by (simp add: get_best_client_def Let_def s1_def[symmetric] p1)
    from A B C D show ?thesis by blast
  next
    case (Some pl)
    let ?cp = "collect_available False now (primary pl) s1"
    let ?s2 = "snd ?cp"
    let ?cb = "collect_available True now (backup pl) ?s2"
    let ?s3 = "if fst ?cp = [] then snd ?cb else ?s2"
    let ?avail = "if fst ?cp = [] then fst ?cb else fst ?cp"
    have s2: "?s2 = s1\<lparr>session_cooldowns := session_cooldowns ?s2\<rparr>"
      by (rule collect_available_state)
    have sb: "snd ?cb = ?s2\<lparr>session_cooldowns := session_cooldowns (snd ?cb)\<rparr>"
      by (rule collect_available_state)
    have sb': "snd ?cb = s1\<lparr>session_cooldowns := session_cooldowns (snd ?cb)\<rparr>"
      by (subst sb, subst s2) simp
    have s3: "?s3 = s1\<lparr>session_cooldowns := session_cooldowns ?s3\<rparr>"
      using s2 sb' by (cases "fst ?cp = []") simp_all
    have a2: "active_clients ?s2 = active_clients s1" by (subst s2) simp
    have c2: "cooling ?s2 now q = cooling s1 now q" for q
      using collect_available_result[of False now "primary pl" s1] by blast
    have e2: "eligible ?s2 now ps = eligible s now ps" for ps
      using eligible_cong[OF a2 c2] el1 by simp
    have sc2: "combined_score ?s2 b q = combined_score s1 b q" for b q
      by (subst s2) simp
    have fp: "fst ?cp = map (\<lambda>p. (combined_score s1 False p, p)) (eligible s now (primary pl))"
      using collect_available_result[of False now "primary pl" s1] el1 by simp
    have fb: "fst ?cb = map (\<lambda>p. (combined_score s1 True p, p)) (eligible s now (backup pl))"
      using collect_available_result[of True now "backup pl" ?s2] e2 sc2 by simp
    have av: "?avail = (if eligible s now (primary pl) \<noteq> []
                           then map (\<lambda>p. (combined_score s1 False p, p)) (eligible s now (primary pl))
                           else map (\<lambda>p. (combined_score s1 True p, p)) (eligible s now (backup pl)))"
      using fp fb by simp
    have a3: "active_clients ?s3 = active_clients s"
      by (subst s3) (simp add: s1_def)
    have lr3: "last_resort ?s3 ps = last_resort s ps" for ps
    proof -
      have "last_resort ?s3 ps = last_resort s1 ps"
        by (rule last_resort_cong; subst s3) simp_all
      with lr1 show ?thesis by simp
    qed
    have c3: "cooling ?s3 now q = cooling s now q" for q
      using collect_available_result[of True now "backup pl" ?s2] c2 cool1 by simp
    have k3: "session_cooldowns ?s3 q = Some u" if "session_cooldowns s q = Some u" "\<not> now > u" for q u
    proof -
      from that cd1 have "session_cooldowns s1 q = Some u" by simp
      with that(2) have k2: "session_cooldowns ?s2 q = Some u"
        using collect_available_result[of False now "primary pl" s1] by blast
      with that(2) have "session_cooldowns (snd ?cb) q = Some u"
        using collect_available_result[of True now "backup pl" ?s2] by blast
      with k2 show ?thesis by simp
    qed
    define s3 where "s3 = ?s3"
    define avail where "avail = ?avail"
    have unfold: "get_best_client s purpose now =
        (case rev (sort avail) of
           (best_score, best_phone) # _ \<Rightarrow> (Returned (Some best_phone, active_clients s3 best_phone), s3)
         | [] \<Rightarrow> (last_resort s3 (primary pl @ backup pl), s3))"
      unfolding s3_def avail_def using assms(1) Some
      by (cases "fst ?cp = []")
         (simp_all add: get_best_client_def Let_def s1_def[symmetric] p1 case_prod_beta
                   split: list.splits)
    have sndeq: "snd (get_best_client s purpose now) = s3"
      unfolding unfold by (simp split: list.splits prod.splits)
    have fsteq: "fst (get_best_client s purpose now) =
        (case rev (sort avail) of
           (best_score, best_phone) # _ \<Rightarrow> Returned (Some best_phone, active_clients s best_phone)
         | [] \<Rightarrow> last_resort s (primary pl @ backup pl))"
      unfolding unfold using a3 lr3 by (simp add: s3_def split: list.splits prod.splits)
    have A: ?A
      unfolding fsteq using Some av by (simp add: avail_def)
    have B: ?B
      unfolding sndeq s3_def by (rule s3)
    have C: ?C
      unfolding sndeq s3_def by (rule c3)
    have D: ?D
      unfolding sndeq s3_def using k3 by blast
    from A B C D show ?thesis by blast
  qed
  then show ?A and ?B and ?C and ?D by blast+
qed

section \<open>The session \<open>get_best_client\<close> chooses\<close>

lemma rev_sort_head:
  fixes xs :: "('a::linorder) list"
  assumes "rev (sort xs) = y # ys"
  shows "y \<in> set xs \<and> (\<forall>x \<in> set xs. x \<le> y)"
proof -
  from assms have "rev (rev (sort xs)) = rev (y # ys)" by simp
  then have eq: "sort xs = rev ys @ [y]" by simp
  have "sorted (sort xs)" by simp
  with eq have "sorted (rev ys @ [y])" by simp
  then have le: "\<forall>x \<in> set (rev ys). x \<le> y" by (simp add: sorted_append)
  have "set xs = set (sort xs)" by simp
  also have "\<dots> = set (rev ys) \<union> {y}" using eq by simp
  finally show ?thesis using le by auto
qed

lemma fst_le_of_pair_le:
  fixes a b :: real and p q :: string
  shows "(a, p) \<le> (b, q) \<Longrightarrow> a \<le> b"
  by (auto simp: less_eq_prod_def)

lemma best_of_scored:
  fixes f :: "phone \<Rightarrow> real"
  assumes "ps \<noteq> []"
  shows "\<exists>sc p rest. rev (sort (map (\<lambda>p. (f p, p)) ps)) = (sc, p) # rest
           \<and> p \<in> set ps \<and> (\<forall>q \<in> set ps. f q \<le> f p)"
proof -
  let ?xs = "map (\<lambda>p. (f p, p)) ps"
  have "length (rev (sort ?xs)) = length ps" by simp
  with assms have "rev (sort ?xs) \<noteq> []" by (metis length_0_conv)
  then obtain y ys where y: "rev (sort ?xs) = y # ys" by (cases "rev (sort ?xs)") simp_all
  from rev_sort_head[OF y] have in_set: "y \<in> set ?xs" and mx: "\<forall>x \<in> set ?xs. x \<le> y" by simp_all
  from in_set obtain p where p: "p \<in> set ps" "y = (f p, p)" by auto
  have "f q \<le> f p" if "q \<in> set ps" for q
  proof -
    from that have "(f q, q) \<in> set ?xs" by simp
    with mx p(2) have "(f q, q) \<le> (f p, p)" by blast
    then show ?thesis by (rule fst_le_of_pair_le)
  qed
  with y p show ?thesis by blast
qed

text \<open>
  What \<open>get_best_client\<close> does while its health check is not due, for a purpose that
  has pools: with an eligible session in the primary pool it returns one of them with
  the highest combined score, else one of the backup pool with the highest combined
  score, else what its last-resort loop finds; and no session at all when every active
  session with metrics is marked cooling.
\<close>

lemma get_best_client_selection:
  assumes nd: "\<not> now - last_health_check s > HEALTH_CHECK_INTERVAL"
    and pl: "sessions s purpose = Some pl"
  shows "(eligible s now (primary pl) \<noteq> [] \<longrightarrow>
            (\<exists>p. fst (get_best_client s purpose now) = Returned (Some p, active_clients s p)
               \<and> p \<in> set (eligible s now (primary pl))
               \<and> (\<forall>q \<in> set (eligible s now (primary pl)).
                     combined_score (snd (get_best_client s purpose now)) False q
                       \<le> combined_score (snd (get_best_client s purpose now)) False p)))
       \<and> (eligible s now (primary pl) = [] \<and> eligible s now (backup pl) \<noteq> [] \<longrightarrow>
            (\<exists>p. fst (get_best_client s purpose now) = Returned (Some p, active_clients s p)
               \<and> p \<in> set (eligible s now (backup pl))
               \<and> (\<forall>q \<in> set (eligible s now (backup pl)).
                     combined_score (snd (get_best_client s purpose now)) True q
                       \<le> combined_score (snd (get_best_client s purpose now)) True p)))
       \<and> (eligible s now (primary pl) = [] \<and> eligible s now (backup pl) = [] \<longrightarrow>
            fst (get_best_client s purpose now) = last_resort s (primary pl @ backup pl))
       \<and> (eligible s now (primary pl) = [] \<and> eligible s now (backup pl) = []
            \<and> (\<forall>p \<in> set (primary pl @ backup pl).
                  active_clients s p \<noteq> None \<and> get_metrics s p \<noteq> None
                    \<longrightarrow> status_of s p = Some STATUS_COOLING) \<longrightarrow>
            fst (get_best_client s purpose now) = Returned (None, None))"
proof -
  let ?s1 = "update_priorities_if_due s now"
  let ?s' = "snd (get_best_client s purpose now)"
  from pl have pf: "pools_for s purpose = Some pl" by (simp add: pools_for_def)
  note res = get_best_client_result(1)[OF nd, of purpose]
  have "?s' = ?s1\<lparr>session_cooldowns := session_cooldowns ?s'\<rparr>"
    by (rule get_best_client_result(2)[OF nd])
  then have sc: "combined_score ?s' b q = combined_score ?s1 b q" for b q
    by (metis combined_score_cooldowns)
  have 1: "\<exists>p. fst (get_best_client s purpose now) = Returned (Some p, active_clients s p)
               \<and> p \<in> set (eligible s now (primary pl))
               \<and> (\<forall>q \<in> set (eligible s now (primary pl)).
                     combined_score ?s' False q \<le> combined_score ?s' False p)"
    if ne: "eligible s now (primary pl) \<noteq> []"
  proof -
    obtain bs p rest where b:
      "rev (sort (map (\<lambda>p. (combined_score ?s1 False p, p)) (eligible s now (primary pl)))) = (bs, p) # rest"
      "p \<in> set (eligible s now (primary pl))"
      "\<forall>q \<in> set (eligible s now (primary pl)). combined_score ?s1 False q \<le> combined_score ?s1 False p"
      using best_of_scored[OF ne, of "combined_score ?s1 False"] by blast
    from res pf ne b(1) have "fst (get_best_client s purpose now) = Returned (Some p, active_clients s p)"
      by simp
    with b(2,3) sc show ?thesis by auto
  qed
  have 2: "\<exists>p. fst (get_best_client s purpose now) = Returned (Some p, active_clients s p)
               \<and> p \<in> set (eligible s now (backup pl))
               \<and> (\<forall>q \<in> set (eligible s now (backup pl)).
                     combined_score ?s' True q \<le> combined_score ?s' True p)"
    if e: "eligible s now (primary pl) = []" and ne: "eligible s now (backup pl) \<noteq> []"
  proof -
    obtain bs p rest where b:
      "rev (sort (map (\<lambda>p. (combined_score ?s1 True p, p)) (eligible s now (backup pl)))) = (bs, p) # rest"
      "p \<in> set (eligible s now (backup pl))"
      "\<forall>q \<in> set (eligible s now (backup pl)). combined_score ?s1 True q \<le> combined_score ?s1 True p"
      using best_of_scored[OF ne, of "combined_score ?s1 True"] by blast
    from res pf e b(1) have "fst (get_best_client s purpose now) = Returned (Some p, active_clients s p)"
      by simp
    with b(2,3) sc show ?thesis by auto
  qed
  have 3: "fst (get_best_client s purpose now) = last_resort s (primary pl @ backup pl)"
    if "eligible s now (primary pl) = []" "eligible s now (backup pl) = []"
    using res pf that by simp
  have 4: "fst (get_best_client s purpose now) = Returned (None, None)"
    if "eligible s now (primary pl) = []" "eligible s now (backup pl) = []"
      "\<forall>p \<in> set (primary pl @ backup pl).
          active_clients s p \<noteq> None \<and> get_metrics s p \<noteq> None \<longrightarrow> status_of s p = Some STATUS_COOLING"
    using 3[OF that(1,2)] last_resort_all_cooling[OF that(3)] by simp
  from 1 2 3 4 show ?thesis by blast
qed

lemma get_best_client_selection_example:
  "fst (get_best_client two_sessions ''general'' 20) = Returned (Some ''B'', Some (TelegramClient 2))
   \<and> ''B'' \<in> set (eligible two_sessions 20 [''A'', ''B''])
   \<and> combined_score (snd (get_best_client two_sessions ''general'' 20)) False ''A''
       \<le> combined_score (snd (get_best_client two_sessions ''general'' 20)) False ''B''"
proof -
  have nd: "\<not> 20 - last_health_check two_sessions > HEALTH_CHECK_INTERVAL" by code_simp
  have pl: "sessions two_sessions ''general'' = Some \<lparr>primary = [''A'', ''B''], backup = []\<rparr>"
    by code_simp
  have el: "eligible two_sessions 20 [''A'', ''B''] = [''A'', ''B'']" by code_simp
  have ev: "fst (get_best_client two_sessions ''general'' 20) = Returned (Some ''B'', Some (TelegramClient 2))"
    by code_simp
  from get_best_client_selection[OF nd pl] el ev
  have "\<exists>p. Returned (Some ''B'', Some (TelegramClient 2)) = Returned (Some p, active_clients two_sessions p)
          \<and> p \<in> set [''A'', ''B'']
          \<and> (\<forall>q \<in> set [''A'', ''B''].
                combined_score (snd (get_best_client two_sessions ''general'' 20)) False q
                  \<le> combined_score (snd (get_best_client two_sessions ''general'' 20)) False p)"
    by simp
  then have "combined_score (snd (get_best_client two_sessions ''general'' 20)) False ''A''
       \<le> combined_score (snd (get_best_client two_sessions ''general'' 20)) False ''B''"
    by auto
  with ev el show ?thesis by simp
qed

text \<open>
  The definition in effect has no fallback to the session with the least remaining
  cooldown (the first, shadowed definition has it): with the only session of the
  purpose in cooldown and the health check not due, it returns no session.
\<close>

lemma get_best_client_returns_none:
  "fst (get_best_client cooled_session ''general'' 20) = Returned (None, None)"
  by code_simp

text \<open>
  C1. With session \<open>A\<close> registered for the purpose \<open>general\<close>, \<open>get_best_client\<close> called
  at the clock reading 1700000000 returns no session and raises \<open>AttributeError\<close>:
  \<open>last_health_check\<close> is 0 from \<open>__init__\<close>, so the health check is due, and the method
  \<open>check_all_sessions_health\<close> it calls then is not defined by the class. The state is
  left as it was, \<open>last_health_check\<close> included, so the next call does the same.
\<close>

theorem get_best_client_raises_attribute_error:
  "last_health_check one_session = 0
   \<and> sessions one_session ''general'' = Some \<lparr>primary = [''A''], backup = []\<rparr>
   \<and> fst (get_best_client one_session ''general'' 1700000000) = Raised AttributeError
   \<and> last_health_check (snd (get_best_client one_session ''general'' 1700000000)) = 0
   \<and> fst (get_best_client (snd (get_best_client one_session ''general'' 1700000000))
            ''general'' 1700000001) = Raised AttributeError"
  by code_simp

section \<open>Forced rotation\<close>

lemma calculate_adaptive_cooldown_state:
  "snd (calculate_adaptive_cooldown s phone error_type now jitter) =
     s\<lparr>session_cooldown_history :=
         session_cooldown_history (snd (calculate_adaptive_cooldown s phone error_type now jitter))\<rparr>"
  by (simp add: calculate_adaptive_cooldown_def Let_def split: option.splits sum.splits)

lemma cool_down_session_returned:
  assumes "cool_down_session s phone error_type now jitter = (Returned d, s')"
    and "get_metrics s phone \<noteq> None"
  shows "session_cooldowns s' phone = Some (now + real_of_int d)"
    and "status_of s' phone = Some STATUS_COOLING"
    and "base_cooldown \<le> d"
proof -
  obtain r s1 where c: "calculate_adaptive_cooldown s phone error_type now jitter = (r, s1)"
    by (cases "calculate_adaptive_cooldown s phone error_type now jitter")
  with assms(1) have r: "r = Returned d"
    by (cases r) (simp_all add: cool_down_session_def Let_def)
  from c have g: "get_metrics s1 phone = get_metrics s phone"
    using calculate_adaptive_cooldown_metrics[of s phone error_type now jitter phone] by simp
  with assms(2) obtain m where m: "get_metrics s1 phone = Some m" by auto
  from c r assms(1) m have s': "s' = set_metrics (s1\<lparr>session_cooldowns := (session_cooldowns s1)(phone \<mapsto> now + real_of_int d)\<rparr>) phone
      (m\<lparr>status := Some STATUS_COOLING, cooling_start := Some now, cooling_duration := Some d,
         cooling_end := Some (now + real_of_int d), cooling_reason := Some error_type,
         consecutive_errors := Some 0, successful_ops_since_last_issue := Some 0\<rparr>)"
    by (simp add: cool_down_session_def Let_def)
  show "session_cooldowns s' phone = Some (now + real_of_int d)" by (simp add: s')
  show "status_of s' phone = Some STATUS_COOLING"
    by (simp add: s' status_of_def get_metrics_set_metrics)
  from c r show "base_cooldown \<le> d"
    using calculate_adaptive_cooldown_bounds[of s phone error_type now jitter d] by simp
qed

lemma collect_alternatives_state:
  "snd (collect_alternatives cur now ps s) =
     s\<lparr>session_cooldowns := session_cooldowns (snd (collect_alternatives cur now ps s))\<rparr>
   \<and> (\<forall>q u. session_cooldowns s q = Some u \<and> \<not> now > u
          \<longrightarrow> session_cooldowns (snd (collect_alternatives cur now ps s)) q = Some u)"
proof (induction ps arbitrary: s)
  case Nil
  show ?case by simp
next
  case (Cons p ps)
  show ?case
  proof (cases "p \<noteq> cur \<and> active_clients s p \<noteq> None")
    case False
    then show ?thesis using Cons.IH[of s] by auto
  next
    case True
    obtain c s1 where i: "is_in_cooldown s p now = (c, s1)" by (cases "is_in_cooldown s p now")
    then have s1: "s1 = snd (is_in_cooldown s p now)" by simp
    have st: "s1 = s\<lparr>session_cooldowns := session_cooldowns s1\<rparr>"
      unfolding s1 by (rule is_in_cooldown_state)
    have keep: "session_cooldowns s1 q = Some u" if "session_cooldowns s q = Some u" "\<not> now > u" for q u
      unfolding s1 using that by (rule is_in_cooldown_keeps_active)
    let ?r = "snd (collect_alternatives cur now ps s1)"
    from Cons.IH[of s1] have ih1: "?r = s1\<lparr>session_cooldowns := session_cooldowns ?r\<rparr>"
      and ih2: "\<forall>q u. session_cooldowns s1 q = Some u \<and> \<not> now > u \<longrightarrow> session_cooldowns ?r q = Some u"
      by blast+
    have ih1': "?r = s\<lparr>session_cooldowns := session_cooldowns ?r\<rparr>"
      by (subst ih1, subst st) simp
    have sn: "snd (collect_alternatives cur now (p # ps) s) = ?r"
      using True i by (cases c) (auto split: prod.splits)
    show ?thesis unfolding sn using ih1' ih2 keep by blast
  qed
qed

lemma get_best_client_keeps:
  shows "status_of (snd (get_best_client s purpose now)) q = status_of s q"
    and "session_cooldowns s q = Some u \<and> \<not> now > u \<longrightarrow>
           session_cooldowns (snd (get_best_client s purpose now)) q = Some u"
proof -
  have "status_of (snd (get_best_client s purpose now)) q = status_of s q
      \<and> (session_cooldowns s q = Some u \<and> \<not> now > u \<longrightarrow>
           session_cooldowns (snd (get_best_client s purpose now)) q = Some u)"
  proof (cases "now - last_health_check s > HEALTH_CHECK_INTERVAL")
    case True
    then show ?thesis by (simp add: get_best_client_def)
  next
    case False
    let ?s' = "snd (get_best_client s purpose now)"
    have "?s' = (update_priorities_if_due s now)\<lparr>session_cooldowns := session_cooldowns ?s'\<rparr>"
      by (rule get_best_client_result(2)[OF False])
    then have "status_of ?s' q = status_of (update_priorities_if_due s now) q"
      by (metis status_of_updates(1))
    then have "status_of ?s' q = status_of s q" by simp
    with get_best_client_result(4)[OF False, of q u purpose] show ?thesis by blast
  qed
  then show "status_of (snd (get_best_client s purpose now)) q = status_of s q"
    and "session_cooldowns s q = Some u \<and> \<not> now > u \<longrightarrow>
           session_cooldowns (snd (get_best_client s purpose now)) q = Some u"
    by blast+
qed

lemma rotate_among_keeps:
  shows "status_of (snd (rotate_among cp now rnd same_pool other_pool s)) q = status_of s q"
    and "session_cooldowns s q = Some u \<and> \<not> now > u \<longrightarrow>
           session_cooldowns (snd (rotate_among cp now rnd same_pool other_pool s)) q = Some u"
proof -
  let ?c1 = "collect_alternatives cp now same_pool s"
  let ?c2 = "collect_alternatives cp now other_pool (snd ?c1)"
  define s2 where "s2 = (if fst ?c1 = [] then snd ?c2 else snd ?c1)"
  have sn: "snd (rotate_among cp now rnd same_pool other_pool s) = s2"
    unfolding s2_def
    by (cases "fst ?c1 = []")
       (simp_all add: rotate_among_def case_prod_beta split: list.splits)
  have a1: "snd ?c1 = s\<lparr>session_cooldowns := session_cooldowns (snd ?c1)\<rparr>"
    and k1: "\<forall>q u. session_cooldowns s q = Some u \<and> \<not> now > u
               \<longrightarrow> session_cooldowns (snd ?c1) q = Some u"
    using collect_alternatives_state[of cp now same_pool s] by blast+
  have a2: "snd ?c2 = (snd ?c1)\<lparr>session_cooldowns := session_cooldowns (snd ?c2)\<rparr>"
    and k2: "\<forall>q u. session_cooldowns (snd ?c1) q = Some u \<and> \<not> now > u
               \<longrightarrow> session_cooldowns (snd ?c2) q = Some u"
    using collect_alternatives_state[of cp now other_pool "snd ?c1"] by blast+
  have a2': "snd ?c2 = s\<lparr>session_cooldowns := session_cooldowns (snd ?c2)\<rparr>"
    by (subst a2, subst a1) simp
  have "s2 = s\<lparr>session_cooldowns := session_cooldowns s2\<rparr>"
    unfolding s2_def using a1 a2' by (cases "fst ?c1 = []") simp_all
  then have st: "status_of s2 q = status_of s q" by (metis status_of_updates(1))
  have "session_cooldowns s q = Some u \<and> \<not> now > u \<longrightarrow> session_cooldowns s2 q = Some u"
    unfolding s2_def using k1 k2 by simp
  with st sn show "status_of (snd (rotate_among cp now rnd same_pool other_pool s)) q = status_of s q"
    and "session_cooldowns s q = Some u \<and> \<not> now > u \<longrightarrow>
           session_cooldowns (snd (rotate_among cp now rnd same_pool other_pool s)) q = Some u"
    by simp_all
qed

lemma implement_session_rotation_keeps:
  shows "status_of (snd (implement_session_rotation s purpose cur now rnd)) q = status_of s q"
    and "session_cooldowns s q = Some u \<and> \<not> now > u \<longrightarrow>
           session_cooldowns (snd (implement_session_rotation s purpose cur now rnd)) q = Some u"
proof -
  have "status_of (snd (implement_session_rotation s purpose cur now rnd)) q = status_of s q
      \<and> (session_cooldowns s q = Some u \<and> \<not> now > u \<longrightarrow>
           session_cooldowns (snd (implement_session_rotation s purpose cur now rnd)) q = Some u)"
  proof (cases "cur = None \<or> cur = Some []")
    case True
    then have "implement_session_rotation s purpose cur now rnd = get_best_client s purpose now"
      by (auto simp: implement_session_rotation_def)
    then show ?thesis using get_best_client_keeps(1)[of s purpose now q]
        get_best_client_keeps(2)[of s q u now purpose] by simp
  next
    case False
    then obtain cp where cp: "cur = Some cp" "cp \<noteq> []" by auto
    then have "\<exists>P Q. implement_session_rotation s purpose cur now rnd = rotate_among cp now rnd P Q s"
      by (simp add: implement_session_rotation_def Let_def) blast
    then obtain P Q where "implement_session_rotation s purpose cur now rnd = rotate_among cp now rnd P Q s"
      by blast
    then show ?thesis
      using rotate_among_keeps(1)[of cp now rnd P Q s q] rotate_among_keeps(2)[of s q u now cp rnd P Q]
      by simp
  qed
  then show "status_of (snd (implement_session_rotation s purpose cur now rnd)) q = status_of s q"
    and "session_cooldowns s q = Some u \<and> \<not> now > u \<longrightarrow>
           session_cooldowns (snd (implement_session_rotation s purpose cur now rnd)) q = Some u"
    by blast+
qed

text \<open>A session in cooldown and marked cooling is never what \<open>get_best_client\<close> returns.\<close>

lemma get_best_client_skips_cooling:
  assumes "cooling s now phone" and "status_of s phone = Some STATUS_COOLING"
  shows "fst (get_best_client s purpose now) \<noteq> Returned (Some phone, c)"
proof (cases "now - last_health_check s > HEALTH_CHECK_INTERVAL")
  case True
  then show ?thesis by (simp add: get_best_client_def)
next
  case False
  note res = get_best_client_result(1)[OF False, of purpose]
  show ?thesis
  proof (cases "pools_for s purpose")
    case None
    with res show ?thesis by simp
  next
    case (Some pl)
    let ?s1 = "update_priorities_if_due s now"
    let ?avail = "if eligible s now (primary pl) \<noteq> []
                  then map (\<lambda>p. (combined_score ?s1 False p, p)) (eligible s now (primary pl))
                  else map (\<lambda>p. (combined_score ?s1 True p, p)) (eligible s now (backup pl))"
    show ?thesis
    proof (cases "rev (sort ?avail)")
      case Nil
      with res Some have "fst (get_best_client s purpose now) = last_resort s (primary pl @ backup pl)"
        by simp
      with assms(2) show ?thesis using last_resort_returns[of s "primary pl @ backup pl" phone c]
        by auto
    next
      case (Cons y ys)
      obtain bs bp where y: "y = (bs, bp)" by (cases y)
      from rev_sort_head[OF Cons] y have "(bs, bp) \<in> set ?avail" by simp
      then have "bp \<in> set (eligible s now (primary pl)) \<or> bp \<in> set (eligible s now (backup pl))"
        by (auto split: if_splits)
      then have "\<not> cooling s now bp" by (auto simp: eligible_def)
      with assms(1) have "bp \<noteq> phone" by auto
      moreover from res Some Cons y
      have "fst (get_best_client s purpose now) = Returned (Some bp, active_clients s bp)" by simp
      ultimately show ?thesis by simp
    qed
  qed
qed

text \<open>
  When \<open>force_session_rotation(purpose, A)\<close> returns for a session \<open>A\<close> that has
  metrics (as every registered session has), \<open>A\<close> is in cooldown at once, and as long
  as that cooldown is active no call of \<open>get_best_client\<close>, for any purpose, returns
  \<open>A\<close>.
\<close>

lemma forced_rotation_excludes_session:
  assumes reg: "get_metrics s avoid_phone \<noteq> None"
    and ret: "force_session_rotation s purpose avoid_phone now jitter rnd = (Returned r, s1)"
  shows "cooling s1 now avoid_phone
       \<and> (\<forall>now2 purpose2 c. cooling s1 now2 avoid_phone \<longrightarrow>
             fst (get_best_client s1 purpose2 now2) \<noteq> Returned (Some avoid_phone, c))"
proof -
  obtain rc sc where cd: "cool_down_session s avoid_phone ''forced_rotation'' now jitter = (rc, sc)"
    by (cases "cool_down_session s avoid_phone ''forced_rotation'' now jitter")
  from ret reg cd obtain d where d: "rc = Returned d"
    by (cases rc) (auto simp: force_session_rotation_def)
  with ret reg cd have s1: "s1 = snd (implement_session_rotation sc purpose (Some avoid_phone) now rnd)"
    by (auto simp: force_session_rotation_def)
  from cd d have cds: "cool_down_session s avoid_phone ''forced_rotation'' now jitter = (Returned d, sc)"
    by simp
  note f = cool_down_session_returned[OF cds reg]
  from f(3) have "0 \<le> real_of_int d" by (simp add: base_cooldown_def)
  then have nexp: "\<not> now > now + real_of_int d" by simp
  have st: "status_of s1 avoid_phone = Some STATUS_COOLING"
    unfolding s1 using implement_session_rotation_keeps(1)[of sc purpose "Some avoid_phone" now rnd avoid_phone] f(2)
    by simp
  have cdn: "session_cooldowns s1 avoid_phone = Some (now + real_of_int d)"
    unfolding s1
    using implement_session_rotation_keeps(2)[of sc avoid_phone "now + real_of_int d" now purpose "Some avoid_phone" rnd]
      f(1) nexp by blast
  then have "cooling s1 now avoid_phone" using nexp by (simp add: cooling_alt)
  moreover have "fst (get_best_client s1 purpose2 now2) \<noteq> Returned (Some avoid_phone, c)"
    if "cooling s1 now2 avoid_phone" for now2 purpose2 c
    using get_best_client_skips_cooling[OF that st] .
  ultimately show ?thesis by blast
qed

lemma forced_rotation_excludes_session_example:
  "fst (force_session_rotation two_sessions ''general'' ''A'' 10 1 (\<lambda>_. 0))
     = Returned (Some ''B'', Some (TelegramClient 2))
   \<and> cooling (snd (force_session_rotation two_sessions ''general'' ''A'' 10 1 (\<lambda>_. 0))) 20 ''A''
   \<and> fst (get_best_client (snd (force_session_rotation two_sessions ''general'' ''A'' 10 1 (\<lambda>_. 0)))
            ''general'' 20) \<noteq> Returned (Some ''A'', Some (TelegramClient 1))"
proof -
  let ?f = "force_session_rotation two_sessions ''general'' ''A'' 10 1 (\<lambda>_. 0)"
  have reg: "get_metrics two_sessions ''A'' \<noteq> None" by code_simp
  have r: "fst ?f = Returned (Some ''B'', Some (TelegramClient 2))" by code_simp
  then have ret: "?f = (Returned (Some ''B'', Some (TelegramClient 2)), snd ?f)"
    by (metis prod.collapse)
  have c: "cooling (snd ?f) 20 ''A''" by code_simp
  from forced_rotation_excludes_session[OF reg ret] c
  have "fst (get_best_client (snd ?f) ''general'' 20) \<noteq> Returned (Some ''A'', Some (TelegramClient 1))"
    by blast
  with r c show ?thesis by blast
qed

section \<open>Priority updates\<close>

lemma adjusted_priority_in_range:
  "min_priority \<le> adjusted_priority p a \<and> adjusted_priority p a \<le> max_priority"
  by (simp add: adjusted_priority_def clamp_priority_def Let_def min_priority_def max_priority_def)

lemma clamp_priority_in_range:
  "min_priority \<le> clamp_priority x \<and> clamp_priority x \<le> max_priority"
  by (simp add: clamp_priority_def min_priority_def max_priority_def)

lemma adjusted_priority_close:
  "min_priority \<le> p \<Longrightarrow> p \<le> max_priority \<Longrightarrow> \<bar>adjusted_priority p a - p\<bar> \<le> 2"
  by (simp add: adjusted_priority_def clamp_priority_def Let_def min_priority_def max_priority_def)

lemma operations_of_streak_only:
  "rel_option streak_only (get_metrics s q) (get_metrics s' q) \<Longrightarrow> operations_of s' q = operations_of s q"
  by (cases "get_metrics s q"; cases "get_metrics s' q")
     (auto simp: operations_of_def dest: streak_only_fields(3))

lemma update_priority_for_operations:
  "operations_of (update_priority_for t p s) q = operations_of s q"
  by (rule operations_of_streak_only[OF update_priority_for_metrics])

lemma update_priority_for_other_priority:
  "q \<noteq> p \<Longrightarrow> priority_of (update_priority_for t p s) q = priority_of s q"
  by (simp add: priority_of_def update_priority_for_other)

text \<open>The priority of the phone the loop body works on.\<close>

lemma update_priority_for_own:
  "priority_of (update_priority_for t p s) p = priority_of s p
   \<or> (\<not> operations_of s p < 10
       \<and> (\<exists>a. priority_of (update_priority_for t p s) p = adjusted_priority (priority_of s p) a))"
proof (cases "get_metrics s p")
  case None
  then show ?thesis by (simp add: update_priority_for_def)
next
  case (Some m)
  define s1 where "s1 = (if session_priorities s p = None
      then s\<lparr>session_priorities := (session_priorities s)(p \<mapsto> default_priority)\<rparr> else s)"
  have p1: "priority_of s1 p = priority_of s p"
    by (simp add: s1_def priority_of_def)
  show ?thesis
  proof (cases "operations m")
    case None
    with Some p1 show ?thesis by (simp add: update_priority_for_def Let_def s1_def[symmetric])
  next
    case ops: (Some ops)
    show ?thesis
    proof (cases "ops < 10")
      case True
      with Some ops p1 show ?thesis by (simp add: update_priority_for_def Let_def s1_def[symmetric])
    next
      case False
      obtain ef ff a where bf: "behavior_factors s1 p m ops t = (ef, ff, a)"
        by (cases "behavior_factors s1 p m ops t") auto
      from Some ops False bf have
        "priority_of (update_priority_for t p s) p = adjusted_priority (priority_of s1 p) a"
        by (simp add: update_priority_for_def Let_def s1_def[symmetric] priority_of_def)
      moreover from Some ops False have "\<not> operations_of s p < 10"
        by (simp add: operations_of_def opt_nat_def)
      ultimately show ?thesis using p1 by auto
    qed
  qed
qed

lemma fold_update_priority_for_priority:
  assumes "distinct ps"
  shows "(q \<notin> set ps \<longrightarrow> priority_of (fold (update_priority_for t) ps s) q = priority_of s q)
       \<and> (min_priority \<le> priority_of s q \<and> priority_of s q \<le> max_priority \<longrightarrow>
            \<bar>priority_of (fold (update_priority_for t) ps s) q - priority_of s q\<bar> \<le> 2
            \<and> min_priority \<le> priority_of (fold (update_priority_for t) ps s) q
            \<and> priority_of (fold (update_priority_for t) ps s) q \<le> max_priority)
       \<and> (operations_of s q < 10 \<longrightarrow> priority_of (fold (update_priority_for t) ps s) q = priority_of s q)"
  using assms
proof (induction ps arbitrary: s)
  case Nil
  show ?case by simp
next
  case (Cons p ps)
  let ?s' = "update_priority_for t p s"
  from Cons.prems have d: "distinct ps" and np: "p \<notin> set ps" by simp_all
  note ih = Cons.IH[OF d, of ?s']
  show ?case
  proof (cases "q = p")
    case False
    then have "priority_of ?s' q = priority_of s q" by (rule update_priority_for_other_priority)
    moreover have "operations_of ?s' q = operations_of s q" by (rule update_priority_for_operations)
    ultimately show ?thesis using ih False by simp
  next
    case True
    with np ih have same: "priority_of (fold (update_priority_for t) ps ?s') q = priority_of ?s' q"
      by simp
    from update_priority_for_own[of t p s] True
    consider "priority_of ?s' q = priority_of s q"
      | a where "\<not> operations_of s q < 10" "priority_of ?s' q = adjusted_priority (priority_of s q) a"
      by auto
    then show ?thesis
    proof cases
      case 1
      with same True show ?thesis by simp
    next
      case 2
      with same True show ?thesis
        using adjusted_priority_in_range[of "priority_of s q" a]
          adjusted_priority_close[of "priority_of s q" a]
        by simp
    qed
  qed
qed

text \<open>
  One cycle of \<open>update_session_priorities\<close> from a state in which every priority is
  within the bounds.
\<close>

lemma update_session_priorities_step:
  assumes "keys_distinct s" and "priorities_in_range s"
  shows "\<bar>priority_of (update_session_priorities s now) phone - priority_of s phone\<bar> \<le> 2
       \<and> min_priority \<le> priority_of (update_session_priorities s now) phone
       \<and> priority_of (update_session_priorities s now) phone \<le> max_priority
       \<and> (operations_of s phone < 10 \<longrightarrow>
            priority_of (update_session_priorities s now) phone = priority_of s phone)"
proof -
  from assms(1) have "distinct (map fst (session_metrics s))" by (simp add: keys_distinct_def)
  from fold_update_priority_for_priority[OF this, of phone now s] assms(2)
  show ?thesis by (simp add: update_session_priorities_def priorities_in_range_def)
qed

section \<open>Properties every run keeps\<close>

lemma keys_distinct_updates [simp]:
  "keys_distinct (s\<lparr>active_clients := a\<rparr>) = keys_distinct s"
  "keys_distinct (s\<lparr>last_health_check := b\<rparr>) = keys_distinct s"
  "keys_distinct (s\<lparr>sessions := c\<rparr>) = keys_distinct s"
  "keys_distinct (s\<lparr>flood_wait_times := d\<rparr>) = keys_distinct s"
  "keys_distinct (s\<lparr>session_cooldowns := e\<rparr>) = keys_distinct s"
  "keys_distinct (s\<lparr>session_cooldown_history := f\<rparr>) = keys_distinct s"
  "keys_distinct (s\<lparr>session_priorities := g\<rparr>) = keys_distinct s"
  "keys_distinct (s\<lparr>behavior_patterns := h\<rparr>) = keys_distinct s"
  "keys_distinct (s\<lparr>last_priority_update := i\<rparr>) = keys_distinct s"
  by (simp_all add: keys_distinct_def)

lemma keys_distinct_set_metrics [simp]: "keys_distinct (set_metrics s p m) = keys_distinct s"
  by (simp add: keys_distinct_def set_metrics_def update_keys)

lemma priorities_in_range_updates [simp]:
  "priorities_in_range (s\<lparr>active_clients := a\<rparr>) = priorities_in_range s"
  "priorities_in_range (s\<lparr>last_health_check := b\<rparr>) = priorities_in_range s"
  "priorities_in_range (s\<lparr>sessions := c\<rparr>) = priorities_in_range s"
  "priorities_in_range (s\<lparr>flood_wait_times := d\<rparr>) = priorities_in_range s"
  "priorities_in_range (s\<lparr>session_cooldowns := e\<rparr>) = priorities_in_range s"
  "priorities_in_range (s\<lparr>session_cooldown_history := f\<rparr>) = priorities_in_range s"
  "priorities_in_range (s\<lparr>behavior_patterns := h\<rparr>) = priorities_in_range s"
  "priorities_in_range (s\<lparr>last_priority_update := i\<rparr>) = priorities_in_range s"
  "priorities_in_range (set_metrics s p m) = priorities_in_range s"
  by (simp_all add: priorities_in_range_def)

text \<open>The two properties together, and an operation that keeps both.\<close>

lemma well_formed_init: "keys_distinct init_state \<and> priorities_in_range init_state"
  by (simp add: keys_distinct_def priorities_in_range_def init_state_def priority_of_def
        default_priority_def min_priority_def max_priority_def)

lemma wf_register_client:
  "keys_distinct s \<and> priorities_in_range s \<Longrightarrow>
   keys_distinct (register_client s phone cl purpose is_primary)
   \<and> priorities_in_range (register_client s phone cl purpose is_primary)"
  by (simp add: register_client_def Let_def)

lemma wf_calculate_adaptive_cooldown:
  "keys_distinct s \<and> priorities_in_range s \<Longrightarrow>
   keys_distinct (snd (calculate_adaptive_cooldown s phone error_type now jitter))
   \<and> priorities_in_range (snd (calculate_adaptive_cooldown s phone error_type now jitter))"
  by (subst (1 2) calculate_adaptive_cooldown_state) simp

lemma wf_cool_down_session:
  assumes "keys_distinct s \<and> priorities_in_range s"
  shows "keys_distinct (snd (cool_down_session s phone error_type now jitter))
       \<and> priorities_in_range (snd (cool_down_session s phone error_type now jitter))"
proof -
  obtain r s1 where c: "calculate_adaptive_cooldown s phone error_type now jitter = (r, s1)"
    by (cases "calculate_adaptive_cooldown s phone error_type now jitter")
  with wf_calculate_adaptive_cooldown[OF assms, of phone error_type now jitter]
  have "keys_distinct s1 \<and> priorities_in_range s1" by simp
  with c show ?thesis
    by (cases r) (simp_all add: cool_down_session_def Let_def split: option.splits)
qed

lemma wf_is_in_cooldown:
  "keys_distinct s \<and> priorities_in_range s \<Longrightarrow>
   keys_distinct (snd (is_in_cooldown s phone now)) \<and> priorities_in_range (snd (is_in_cooldown s phone now))"
  by (subst (1 2) is_in_cooldown_state) simp

lemma keys_distinct_update_priority_for:
  "keys_distinct (update_priority_for t p s) = keys_distinct s"
  by (simp add: update_priority_for_def Let_def split: option.splits prod.splits)

lemma keys_distinct_fold_update_priority_for:
  "keys_distinct (fold (update_priority_for t) ps s) = keys_distinct s"
  by (induction ps arbitrary: s) (simp_all add: keys_distinct_update_priority_for)

lemma wf_update_session_priorities:
  assumes "keys_distinct s \<and> priorities_in_range s"
  shows "keys_distinct (update_session_priorities s now)
       \<and> priorities_in_range (update_session_priorities s now)"
proof -
  have "keys_distinct (update_session_priorities s now)"
    using assms by (simp add: update_session_priorities_def keys_distinct_fold_update_priority_for)
  moreover have "priorities_in_range (update_session_priorities s now)"
    unfolding priorities_in_range_def
  proof
    fix q
    from assms have "distinct (map fst (session_metrics s))" by (simp add: keys_distinct_def)
    from fold_update_priority_for_priority[OF this, of q now s] assms
    show "min_priority \<le> priority_of (update_session_priorities s now) q
        \<and> priority_of (update_session_priorities s now) q \<le> max_priority"
      by (simp add: update_session_priorities_def priorities_in_range_def)
  qed
  ultimately show ?thesis by simp
qed

lemma wf_update_priorities_if_due:
  "keys_distinct s \<and> priorities_in_range s \<Longrightarrow>
   keys_distinct (update_priorities_if_due s now) \<and> priorities_in_range (update_priorities_if_due s now)"
  using wf_update_session_priorities[of s now] by (simp add: update_priorities_if_due_def)

lemma get_best_client_state_cases:
  "snd (get_best_client s purpose now) = s
   \<or> snd (get_best_client s purpose now) =
       (update_priorities_if_due s now)\<lparr>session_cooldowns := session_cooldowns (snd (get_best_client s purpose now))\<rparr>"
proof (cases "now - last_health_check s > HEALTH_CHECK_INTERVAL")
  case True
  then show ?thesis by (simp add: get_best_client_def)
next
  case False
  from get_best_client_result(2)[OF False, of purpose] show ?thesis by blast
qed

lemma wf_get_best_client:
  assumes "keys_distinct s \<and> priorities_in_range s"
  shows "keys_distinct (snd (get_best_client s purpose now))
       \<and> priorities_in_range (snd (get_best_client s purpose now))"
proof -
  from get_best_client_state_cases[of s purpose now]
  consider "snd (get_best_client s purpose now) = s"
    | c where "snd (get_best_client s purpose now) = (update_priorities_if_due s now)\<lparr>session_cooldowns := c\<rparr>"
    by blast
  then show ?thesis
  proof cases
    case 1
    with assms show ?thesis by simp
  next
    case 2
    with wf_update_priorities_if_due[OF assms, of now] show ?thesis by simp
  qed
qed

lemma wf_record_operation:
  "keys_distinct s \<and> priorities_in_range s \<Longrightarrow>
   keys_distinct (snd (record_operation s phone success error fw operation_type now))
   \<and> priorities_in_range (snd (record_operation s phone success error fw operation_type now))"
  by (simp add: record_operation_def Let_def split: option.splits)

lemma execute_with_priority_state_cases:
  "snd (execute_with_priority s purpose func operation_type now record_time) = snd (get_best_client s purpose now)
   \<or> (\<exists>phone cl success error fw.
         fst (get_best_client s purpose now) = Returned (Some phone, Some cl)
         \<and> snd (execute_with_priority s purpose func operation_type now record_time) =
             snd (record_operation (snd (get_best_client s purpose now)) phone success error fw
                    operation_type record_time))"
proof (cases "get_best_client s purpose now")
  case (Pair r s1)
  show ?thesis
  proof (cases r)
    case (Raised e)
    with Pair show ?thesis by (simp add: execute_with_priority_def)
  next
    case (Returned pc)
    obtain po co where pc: "pc = (po, co)" by (cases pc)
    show ?thesis
    proof (cases "\<exists>phone cl. po = Some phone \<and> co = Some cl")
      case False
      with Pair Returned pc show ?thesis
        by (cases po; cases co) (simp_all add: execute_with_priority_def)
    next
      case True
      then obtain phone cl where "po = Some phone" "co = Some cl" by blast
      with Pair Returned pc have g: "get_best_client s purpose now = (Returned (Some phone, Some cl), s1)"
        by simp
      from execute_with_priority_records(1)[OF g, of func operation_type record_time] g
      show ?thesis by auto
    qed
  qed
qed

lemma wf_execute_with_priority:
  assumes "keys_distinct s \<and> priorities_in_range s"
  shows "keys_distinct (snd (execute_with_priority s purpose func operation_type now record_time))
       \<and> priorities_in_range (snd (execute_with_priority s purpose func operation_type now record_time))"
  using execute_with_priority_state_cases[of s purpose func operation_type now record_time]
    wf_get_best_client[OF assms, of purpose now]
    wf_record_operation[OF wf_get_best_client[OF assms, of purpose now]]
  by auto

lemma register_user_behavior_priority:
  "priority_of (register_user_behavior s phone behavior_type val now) q = priority_of s q
   \<or> (\<exists>x. priority_of (register_user_behavior s phone behavior_type val now) q = clamp_priority x)"
proof (cases "session_priorities s phone")
  case None
  then show ?thesis by (simp add: register_user_behavior_def Let_def priority_of_def)
next
  case (Some p)
  show ?thesis
  proof (cases "q = phone")
    case False
    with Some show ?thesis by (simp add: register_user_behavior_def Let_def priority_of_def)
  next
    case True
    with Some show ?thesis
      by (simp add: register_user_behavior_def Let_def priority_of_def) blast
  qed
qed

lemma register_user_behavior_keys:
  "keys_distinct (register_user_behavior s phone behavior_type val now) = keys_distinct s"
  by (cases "session_priorities s phone") (simp_all add: register_user_behavior_def Let_def)

lemma wf_register_user_behavior:
  assumes "keys_distinct s \<and> priorities_in_range s"
  shows "keys_distinct (register_user_behavior s phone behavior_type val now)
       \<and> priorities_in_range (register_user_behavior s phone behavior_type val now)"
proof -
  have k: "keys_distinct (register_user_behavior s phone behavior_type val now)"
    using assms by (simp add: register_user_behavior_keys)
  have "min_priority \<le> priority_of (register_user_behavior s phone behavior_type val now) q
      \<and> priority_of (register_user_behavior s phone behavior_type val now) q \<le> max_priority" for q
    using register_user_behavior_priority[of s phone behavior_type val now q] assms
      clamp_priority_in_range
    by (auto simp: priorities_in_range_def)
  with k show ?thesis by (simp add: priorities_in_range_def)
qed

lemma wf_detect_session_overload:
  "keys_distinct s \<and> priorities_in_range s \<Longrightarrow>
   keys_distinct (snd (detect_session_overload s phone now))
   \<and> priorities_in_range (snd (detect_session_overload s phone now))"
  by (simp add: detect_session_overload_def Let_def split: option.splits)

lemma rotate_among_state:
  "snd (rotate_among cp now rnd P Q s) =
     s\<lparr>session_cooldowns := session_cooldowns (snd (rotate_among cp now rnd P Q s))\<rparr>"
proof -
  let ?c1 = "collect_alternatives cp now P s"
  let ?c2 = "collect_alternatives cp now Q (snd ?c1)"
  define s2 where "s2 = (if fst ?c1 = [] then snd ?c2 else snd ?c1)"
  have sn: "snd (rotate_among cp now rnd P Q s) = s2"
    unfolding s2_def
    by (cases "fst ?c1 = []")
       (simp_all add: rotate_among_def case_prod_beta split: list.splits)
  have a1: "snd ?c1 = s\<lparr>session_cooldowns := session_cooldowns (snd ?c1)\<rparr>"
    using collect_alternatives_state[of cp now P s] by blast
  have a2: "snd ?c2 = (snd ?c1)\<lparr>session_cooldowns := session_cooldowns (snd ?c2)\<rparr>"
    using collect_alternatives_state[of cp now Q "snd ?c1"] by blast
  have a2': "snd ?c2 = s\<lparr>session_cooldowns := session_cooldowns (snd ?c2)\<rparr>"
    by (subst a2, subst a1) simp
  have "s2 = s\<lparr>session_cooldowns := session_cooldowns s2\<rparr>"
    unfolding s2_def using a1 a2' by (cases "fst ?c1 = []") simp_all
  with sn show ?thesis by simp
qed

lemma implement_session_rotation_state_cases:
  "snd (implement_session_rotation s purpose cur now rnd) = snd (get_best_client s purpose now)
   \<or> snd (implement_session_rotation s purpose cur now rnd) =
       s\<lparr>session_cooldowns := session_cooldowns (snd (implement_session_rotation s purpose cur now rnd))\<rparr>"
proof (cases "cur = None \<or> cur = Some []")
  case True
  then show ?thesis by (auto simp: implement_session_rotation_def)
next
  case False
  then obtain cp where cp: "cur = Some cp" "cp \<noteq> []" by auto
  then have "\<exists>P Q. implement_session_rotation s purpose cur now rnd = rotate_among cp now rnd P Q s"
    by (simp add: implement_session_rotation_def Let_def) blast
  then obtain P Q where "implement_session_rotation s purpose cur now rnd = rotate_among cp now rnd P Q s"
    by blast
  then show ?thesis using rotate_among_state[of cp now rnd P Q s] by simp
qed

lemma wf_implement_session_rotation:
  assumes "keys_distinct s \<and> priorities_in_range s"
  shows "keys_distinct (snd (implement_session_rotation s purpose cur now rnd))
       \<and> priorities_in_range (snd (implement_session_rotation s purpose cur now rnd))"
proof -
  from implement_session_rotation_state_cases[of s purpose cur now rnd]
  consider "snd (implement_session_rotation s purpose cur now rnd) = snd (get_best_client s purpose now)"
    | c where "snd (implement_session_rotation s purpose cur now rnd) = s\<lparr>session_cooldowns := c\<rparr>"
    by blast
  then show ?thesis
  proof cases
    case 1
    with wf_get_best_client[OF assms, of purpose now] show ?thesis by simp
  next
    case 2
    with assms show ?thesis by simp
  qed
qed

lemma force_session_rotation_state_cases:
  "snd (force_session_rotation s purpose avoid now jitter rnd) =
     snd (implement_session_rotation s purpose (Some avoid) now rnd)
   \<or> snd (force_session_rotation s purpose avoid now jitter rnd) =
       snd (cool_down_session s avoid ''forced_rotation'' now jitter)
   \<or> snd (force_session_rotation s purpose avoid now jitter rnd) =
       snd (implement_session_rotation (snd (cool_down_session s avoid ''forced_rotation'' now jitter))
              purpose (Some avoid) now rnd)"
proof (cases "cool_down_session s avoid ''forced_rotation'' now jitter")
  case (Pair r s1)
  then show ?thesis
    by (cases r) (simp_all add: force_session_rotation_def)
qed

lemma wf_force_session_rotation:
  assumes "keys_distinct s \<and> priorities_in_range s"
  shows "keys_distinct (snd (force_session_rotation s purpose avoid now jitter rnd))
       \<and> priorities_in_range (snd (force_session_rotation s purpose avoid now jitter rnd))"
  using force_session_rotation_state_cases[of s purpose avoid now jitter rnd]
    wf_implement_session_rotation[OF assms, of purpose "Some avoid" now rnd]
    wf_cool_down_session[OF assms, of avoid "''forced_rotation''" now jitter]
    wf_implement_session_rotation[OF wf_cool_down_session[OF assms, of avoid "''forced_rotation''" now jitter],
      of purpose "Some avoid" now rnd]
  by auto

lemma wf_apply_op:
  "keys_distinct s \<and> priorities_in_range s \<Longrightarrow>
   keys_distinct (apply_op x s) \<and> priorities_in_range (apply_op x s)"
proof (cases x)
  case (RegisterClient x11 x12 x13 x14)
  assume "keys_distinct s \<and> priorities_in_range s"
  with RegisterClient show ?thesis using wf_register_client by simp
next
  case (CalculateAdaptiveCooldown x21 x22 x23 x24)
  assume "keys_distinct s \<and> priorities_in_range s"
  with CalculateAdaptiveCooldown show ?thesis using wf_calculate_adaptive_cooldown by simp
next
  case (CoolDownSession x31 x32 x33 x34)
  assume "keys_distinct s \<and> priorities_in_range s"
  with CoolDownSession show ?thesis using wf_cool_down_session by simp
next
  case (IsInCooldown x41 x42)
  assume "keys_distinct s \<and> priorities_in_range s"
  with IsInCooldown show ?thesis using wf_is_in_cooldown by simp
next
  case (GetBestClient x51 x52)
  assume "keys_distinct s \<and> priorities_in_range s"
  with GetBestClient show ?thesis using wf_get_best_client by simp
next
  case (UpdateSessionPriorities x6)
  assume "keys_distinct s \<and> priorities_in_range s"
  with UpdateSessionPriorities show ?thesis using wf_update_session_priorities by simp
next
  case (RecordOperation x71 x72 x73 x74 x75 x76)
  assume "keys_distinct s \<and> priorities_in_range s"
  with RecordOperation show ?thesis using wf_record_operation by simp
next
  case (ExecuteWithPriority x81 x82 x83 x84 x85)
  assume "keys_distinct s \<and> priorities_in_range s"
  with ExecuteWithPriority show ?thesis using wf_execute_with_priority by simp
next
  case (RegisterUserBehavior x91 x92 x93 x94)
  assume "keys_distinct s \<and> priorities_in_range s"
  with RegisterUserBehavior show ?thesis using wf_register_user_behavior by simp
next
  case (DetectSessionOverload x101 x102)
  assume "keys_distinct s \<and> priorities_in_range s"
  with DetectSessionOverload show ?thesis using wf_detect_session_overload by simp
next
  case (ImplementSessionRotation x111 x112 x113 x114)
  assume "keys_distinct s \<and> priorities_in_range s"
  with ImplementSessionRotation show ?thesis using wf_implement_session_rotation by simp
next
  case (ForceSessionRotation x121 x122 x123 x124 x125)
  assume "keys_distinct s \<and> priorities_in_range s"
  with ForceSessionRotation show ?thesis using wf_force_session_rotation by simp
qed

lemma wf_run:
  "keys_distinct s \<and> priorities_in_range s \<Longrightarrow>
   keys_distinct (run ops s) \<and> priorities_in_range (run ops s)"
  unfolding run_def
  by (induction ops arbitrary: s) (simp_all add: wf_apply_op)

text \<open>Every state a run reaches from the initial one has both properties.\<close>

lemma wf_reachable: "keys_distinct (run ops init_state) \<and> priorities_in_range (run ops init_state)"
  by (rule wf_run[OF well_formed_init])

lemma run_append: "run (xs @ ys) s = run ys (run xs s)"
  by (simp add: run_def)

section \<open>One cycle of priority updates\<close>

text \<open>
  C8. In every state the balancer reaches, one cycle of \<open>update_session_priorities\<close>
  changes the priority of every session by at most 2 and leaves it within [1, 10]; a
  session with fewer than 10 recorded operations keeps its priority. The priority of a
  session is what the code reads, \<open>session_priorities.get(phone, default_priority)\<close>.
\<close>

theorem update_session_priorities_bounded:
  "\<bar>priority_of (update_session_priorities (run ops init_state) now) phone
      - priority_of (run ops init_state) phone\<bar> \<le> 2
   \<and> min_priority \<le> priority_of (update_session_priorities (run ops init_state) now) phone
   \<and> priority_of (update_session_priorities (run ops init_state) now) phone \<le> max_priority
   \<and> (operations_of (run ops init_state) phone < 10 \<longrightarrow>
        priority_of (update_session_priorities (run ops init_state) now) phone
          = priority_of (run ops init_state) phone)"
  using update_session_priorities_step[of "run ops init_state" now phone] wf_reachable[of ops]
  by blast

text \<open>
  Session \<open>A\<close> just registered keeps its priority 5; after ten successful operations
  its priority goes from 5 to 7.
\<close>

theorem update_session_priorities_bounded_witness:
  "operations_of (run [RegisterClient ''A'' (TelegramClient 1) ''general'' True] init_state) ''A'' < 10
   \<and> priority_of (update_session_priorities
          (run [RegisterClient ''A'' (TelegramClient 1) ''general'' True] init_state) 1010) ''A''
       = priority_of (run [RegisterClient ''A'' (TelegramClient 1) ''general'' True] init_state) ''A''
   \<and> operations_of ten_operations ''A'' = 10
   \<and> priority_of ten_operations ''A'' = 5
   \<and> priority_of (update_session_priorities ten_operations 1010) ''A'' = 7"
proof -
  let ?s = "run [RegisterClient ''A'' (TelegramClient 1) ''general'' True] init_state"
  have a: "operations_of ?s ''A'' < 10" by code_simp
  from update_session_priorities_bounded[of "[RegisterClient ''A'' (TelegramClient 1) ''general'' True]"
         1010 "''A''"] a
  have b: "priority_of (update_session_priorities ?s 1010) ''A'' = priority_of ?s ''A''"
    by blast
  have c: "operations_of ten_operations ''A'' = 10" by code_simp
  have d: "priority_of ten_operations ''A'' = 5" by code_simp
  have e: "priority_of (update_session_priorities ten_operations 1010) ''A'' = 7" by code_simp
  from a b c d e show ?thesis by blast
qed

section \<open>What every operation keeps\<close>

text \<open>
  A property of the state that the elementary steps keep is kept by every operation;
  \<open>record_operation\<close> need keep it only for the phones in \<open>allowed\<close>, when the operation
  records for no other phone.
\<close>

lemma apply_op_keeps:
  fixes P :: "lb_state \<Rightarrow> bool" and allowed :: "phone \<Rightarrow> bool"
  assumes cd: "\<And>t c. P t \<Longrightarrow> P (t\<lparr>session_cooldowns := c\<rparr>)"
    and lp: "\<And>t u. P t \<Longrightarrow> P (t\<lparr>last_priority_update := u\<rparr>)"
    and reg: "\<And>t phone cl purpose is_primary. P t \<Longrightarrow> P (register_client t phone cl purpose is_primary)"
    and cac: "\<And>t phone error_type now jitter. P t \<Longrightarrow>
                P (snd (calculate_adaptive_cooldown t phone error_type now jitter))"
    and cds: "\<And>t phone error_type now jitter. P t \<Longrightarrow>
                P (snd (cool_down_session t phone error_type now jitter))"
    and usp: "\<And>t now. P t \<Longrightarrow> P (update_session_priorities t now)"
    and rec: "\<And>t phone success error fw operation_type now. P t \<Longrightarrow> allowed phone \<Longrightarrow>
                P (snd (record_operation t phone success error fw operation_type now))"
    and rub: "\<And>t phone behavior_type val now. P t \<Longrightarrow>
                P (register_user_behavior t phone behavior_type val now)"
    and det: "\<And>t phone now. P t \<Longrightarrow> P (snd (detect_session_overload t phone now))"
    and P: "P s"
    and al: "\<And>phone. records_for x s = Some phone \<Longrightarrow> allowed phone"
  shows "P (apply_op x s)"
proof -
  have upd: "P (update_priorities_if_due t now)" if "P t" for t now
    using usp[OF that, of now] lp that by (simp add: update_priorities_if_due_def)
  have gbc: "P (snd (get_best_client t purpose now))" if "P t" for t purpose now
  proof -
    from get_best_client_state_cases[of t purpose now]
    consider "snd (get_best_client t purpose now) = t"
      | c where "snd (get_best_client t purpose now) = (update_priorities_if_due t now)\<lparr>session_cooldowns := c\<rparr>"
      by blast
    then show ?thesis
    proof cases
      case 1
      with that show ?thesis by simp
    next
      case 2
      with cd[OF upd[OF that, of now]] show ?thesis by simp
    qed
  qed
  have isr: "P (snd (implement_session_rotation t purpose cur now rnd))" if "P t" for t purpose cur now rnd
  proof -
    from implement_session_rotation_state_cases[of t purpose cur now rnd]
    consider "snd (implement_session_rotation t purpose cur now rnd) = snd (get_best_client t purpose now)"
      | c where "snd (implement_session_rotation t purpose cur now rnd) = t\<lparr>session_cooldowns := c\<rparr>"
      by blast
    then show ?thesis
    proof cases
      case 1
      with gbc[OF that] show ?thesis by simp
    next
      case 2
      with cd[OF that] show ?thesis by simp
    qed
  qed
  show ?thesis
  proof (cases x)
    case (RegisterClient x11 x12 x13 x14)
    with reg[OF P] show ?thesis by simp
  next
    case (CalculateAdaptiveCooldown x21 x22 x23 x24)
    with cac[OF P] show ?thesis by simp
  next
    case (CoolDownSession x31 x32 x33 x34)
    with cds[OF P] show ?thesis by simp
  next
    case (IsInCooldown x41 x42)
    have "P (s\<lparr>session_cooldowns := session_cooldowns (snd (is_in_cooldown s x41 x42))\<rparr>)"
      by (rule cd[OF P])
    with IsInCooldown is_in_cooldown_state[of s x41 x42] show ?thesis by simp
  next
    case (GetBestClient x51 x52)
    with gbc[OF P] show ?thesis by simp
  next
    case (UpdateSessionPriorities x6)
    with usp[OF P] show ?thesis by simp
  next
    case (RecordOperation x71 x72 x73 x74 x75 x76)
    with al have "allowed x71" by simp
    from rec[OF P this] RecordOperation show ?thesis by simp
  next
    case (ExecuteWithPriority x81 x82 x83 x84 x85)
    from execute_with_priority_state_cases[of s x81 x82 x83 x84 x85]
    consider "snd (execute_with_priority s x81 x82 x83 x84 x85) = snd (get_best_client s x81 x84)"
      | phone cl success error fw where
        "fst (get_best_client s x81 x84) = Returned (Some phone, Some cl)"
        "snd (execute_with_priority s x81 x82 x83 x84 x85) =
           snd (record_operation (snd (get_best_client s x81 x84)) phone success error fw x83 x85)"
      by blast
    then show ?thesis
    proof cases
      case 1
      with gbc[OF P] ExecuteWithPriority show ?thesis by simp
    next
      case 2
      from 2(1) ExecuteWithPriority have "records_for x s = Some phone" by simp
      then have "allowed phone" by (rule al)
      from rec[OF gbc[OF P] this] 2(2) ExecuteWithPriority show ?thesis by simp
    qed
  next
    case (RegisterUserBehavior x91 x92 x93 x94)
    with rub[OF P] show ?thesis by simp
  next
    case (DetectSessionOverload x101 x102)
    with det[OF P] show ?thesis by simp
  next
    case (ImplementSessionRotation x111 x112 x113 x114)
    with isr[OF P] show ?thesis by simp
  next
    case (ForceSessionRotation x121 x122 x123 x124 x125)
    from force_session_rotation_state_cases[of s x121 x122 x123 x124 x125]
      isr[OF P, of x121 "Some x122" x123 x125]
      cds[OF P, of x122 "''forced_rotation''" x123 x124]
      isr[OF cds[OF P, of x122 "''forced_rotation''" x123 x124], of x121 "Some x122" x123 x125]
    have "P (snd (force_session_rotation s x121 x122 x123 x124 x125))" by auto
    with ForceSessionRotation show ?thesis by simp
  qed
qed

text \<open>The attribute \<open>last_health_check\<close> is never assigned: every operation leaves it as it is.\<close>

lemma last_health_check_apply_op: "last_health_check (apply_op x s) = last_health_check s"
proof -
  define h where "h = last_health_check s"
  have "last_health_check (apply_op x s) = h"
  proof (rule apply_op_keeps[where P = "\<lambda>t. last_health_check t = h" and allowed = "\<lambda>_. True"])
    show "last_health_check s = h" by (simp add: h_def)
  next
    fix t :: lb_state and phone cl purpose is_primary
    assume "last_health_check t = h"
    then show "last_health_check (register_client t phone cl purpose is_primary) = h"
      by (simp add: register_client_def Let_def set_metrics_def)
  next
    fix t :: lb_state and phone error_type now jitter
    assume a: "last_health_check t = h"
    show "last_health_check (snd (calculate_adaptive_cooldown t phone error_type now jitter)) = h"
      by (subst calculate_adaptive_cooldown_state) (simp add: a)
    obtain r t1 where c: "calculate_adaptive_cooldown t phone error_type now jitter = (r, t1)"
      by (cases "calculate_adaptive_cooldown t phone error_type now jitter")
    have "last_health_check (snd (calculate_adaptive_cooldown t phone error_type now jitter)) = h"
      by (subst calculate_adaptive_cooldown_state) (simp add: a)
    with c have "last_health_check t1 = h" by simp
    with c show "last_health_check (snd (cool_down_session t phone error_type now jitter)) = h"
      by (cases r) (simp_all add: cool_down_session_def Let_def set_metrics_def split: option.splits)
  next
    fix t :: lb_state and now
    assume a: "last_health_check t = h"
    have u: "last_health_check (update_priority_for now p u) = last_health_check u" for p u
      by (simp add: update_priority_for_def Let_def set_metrics_def split: option.splits prod.splits)
    have "last_health_check (fold (update_priority_for now) ps u) = last_health_check u" for ps u
      by (induction ps arbitrary: u) (simp_all add: u)
    with a show "last_health_check (update_session_priorities t now) = h"
      by (simp add: update_session_priorities_def)
  next
    fix t :: lb_state and phone success error fw operation_type now
    assume "last_health_check t = h"
    then show "last_health_check (snd (record_operation t phone success error fw operation_type now)) = h"
      by (simp add: record_operation_def Let_def set_metrics_def split: option.splits)
  next
    fix t :: lb_state and phone behavior_type val now
    assume "last_health_check t = h"
    then show "last_health_check (register_user_behavior t phone behavior_type val now) = h"
      by (cases "session_priorities t phone") (simp_all add: register_user_behavior_def Let_def)
  next
    fix t :: lb_state and phone now
    assume "last_health_check t = h"
    then show "last_health_check (snd (detect_session_overload t phone now)) = h"
      by (simp add: detect_session_overload_def Let_def set_metrics_def split: option.splits)
  qed simp_all
  then show ?thesis by (simp add: h_def)
qed

lemma last_health_check_run: "last_health_check (run ops s) = last_health_check s"
  unfolding run_def
  by (induction ops arbitrary: s) (simp_all add: last_health_check_apply_op)

text \<open>
  So in every state the balancer reaches, at every clock reading above 60,
  \<open>get_best_client\<close> raises \<open>AttributeError\<close> and changes nothing.
\<close>

lemma get_best_client_raises_once_due:
  assumes "current_time > HEALTH_CHECK_INTERVAL"
  shows "get_best_client (run ops init_state) purpose current_time
           = (Raised AttributeError, run ops init_state)"
proof -
  have "last_health_check (run ops init_state) = 0"
    by (simp add: last_health_check_run init_state_def)
  with assms show ?thesis by (simp add: get_best_client_def)
qed

section \<open>The health score is written at registration only\<close>

lemma health_kept_refl: "health_kept p s s"
  by (simp add: health_kept_def health_score_of_def split: option.splits)

lemma health_kept_trans: "health_kept p s t \<Longrightarrow> health_kept p t u \<Longrightarrow> health_kept p s u"
  by (auto simp: health_kept_def health_score_of_def split: option.splits)

lemma health_kept_same: "get_metrics t p = get_metrics s p \<Longrightarrow> health_kept p s t"
  by (simp add: health_kept_def health_score_of_def split: option.splits)

lemma health_kept_register_client: "health_kept p s (register_client s phone cl purpose is_primary)"
  by (auto simp: health_kept_def health_score_of_def register_client_def Let_def
        get_metrics_set_metrics registered_metrics_def empty_metrics_def split: option.splits)

lemma health_kept_calculate_adaptive_cooldown:
  "health_kept p s (snd (calculate_adaptive_cooldown s phone error_type now jitter))"
  by (rule health_kept_same) (rule calculate_adaptive_cooldown_metrics)

lemma health_kept_cool_down_session:
  "health_kept p s (snd (cool_down_session s phone error_type now jitter))"
proof (cases "calculate_adaptive_cooldown s phone error_type now jitter")
  case (Pair r s1)
  with calculate_adaptive_cooldown_metrics[of s phone error_type now jitter]
  have g: "get_metrics s1 q = get_metrics s q" for q by simp
  show ?thesis
  proof (cases r)
    case (Raised e)
    with Pair g show ?thesis by (simp add: cool_down_session_def health_kept_same)
  next
    case (Returned d)
    with Pair g show ?thesis
      by (auto simp: cool_down_session_def Let_def health_kept_def health_score_of_def
            get_metrics_set_metrics split: option.splits)
  qed
qed

lemma health_kept_update_session_priorities: "health_kept p s (update_session_priorities s now)"
  using update_session_priorities_metrics[of s p now]
  by (cases "get_metrics s p"; cases "get_metrics (update_session_priorities s now) p")
     (auto simp: health_kept_def health_score_of_def dest: streak_only_fields(2))

lemma record_operation_other:
  "q \<noteq> phone \<Longrightarrow>
   get_metrics (snd (record_operation s phone success error fw operation_type now)) q = get_metrics s q
   \<and> flood_wait_times (snd (record_operation s phone success error fw operation_type now)) q
       = flood_wait_times s q"
  by (simp add: record_operation_def Let_def get_metrics_set_metrics split: option.splits)

lemma health_kept_record_operation:
  "health_kept p s (snd (record_operation s phone success error fw operation_type now))"
proof (cases "p = phone")
  case False
  then show ?thesis by (simp add: health_kept_same record_operation_other)
next
  case True
  from record_operation_metrics[of s phone success error fw operation_type now]
  obtain m where "get_metrics (snd (record_operation s phone success error fw operation_type now)) phone = Some m"
    "health_score m = health_score (case get_metrics s phone of None \<Rightarrow> empty_metrics | Some m \<Rightarrow> m)"
    by blast
  with True show ?thesis
    by (auto simp: health_kept_def health_score_of_def empty_metrics_def split: option.splits)
qed

lemma register_user_behavior_metrics:
  "get_metrics (register_user_behavior s phone behavior_type val now) q = get_metrics s q"
  "flood_wait_times (register_user_behavior s phone behavior_type val now) = flood_wait_times s"
  by (cases "session_priorities s phone"; simp add: register_user_behavior_def Let_def)+

lemma health_kept_register_user_behavior:
  "health_kept p s (register_user_behavior s phone behavior_type val now)"
  by (rule health_kept_same) (rule register_user_behavior_metrics)

lemma health_kept_detect_session_overload:
  "health_kept p s (snd (detect_session_overload s phone now))"
  by (auto simp: detect_session_overload_def Let_def health_kept_def health_score_of_def
        get_metrics_set_metrics split: option.splits)

text \<open>No operation changes what is stored under \<open>health_score\<close>.\<close>

lemma health_kept_apply_op: "health_kept p s (apply_op x s)"
proof (rule apply_op_keeps[where P = "health_kept p s" and allowed = "\<lambda>_. True"])
  show "health_kept p s s" by (rule health_kept_refl)
next
  fix t :: lb_state and c
  assume "health_kept p s t"
  then show "health_kept p s (t\<lparr>session_cooldowns := c\<rparr>)"
    by (rule health_kept_trans) (simp add: health_kept_same)
next
  fix t :: lb_state and u
  assume "health_kept p s t"
  then show "health_kept p s (t\<lparr>last_priority_update := u\<rparr>)"
    by (rule health_kept_trans) (simp add: health_kept_same)
next
  fix t :: lb_state and phone cl purpose is_primary
  assume "health_kept p s t"
  then show "health_kept p s (register_client t phone cl purpose is_primary)"
    by (rule health_kept_trans) (rule health_kept_register_client)
next
  fix t :: lb_state and phone error_type now jitter
  assume a: "health_kept p s t"
  then show "health_kept p s (snd (calculate_adaptive_cooldown t phone error_type now jitter))"
    by (rule health_kept_trans) (rule health_kept_calculate_adaptive_cooldown)
  from a show "health_kept p s (snd (cool_down_session t phone error_type now jitter))"
    by (rule health_kept_trans) (rule health_kept_cool_down_session)
next
  fix t :: lb_state and now
  assume "health_kept p s t"
  then show "health_kept p s (update_session_priorities t now)"
    by (rule health_kept_trans) (rule health_kept_update_session_priorities)
next
  fix t :: lb_state and phone success error fw operation_type now
  assume "health_kept p s t"
  then show "health_kept p s (snd (record_operation t phone success error fw operation_type now))"
    by (rule health_kept_trans) (rule health_kept_record_operation)
next
  fix t :: lb_state and phone behavior_type val now
  assume "health_kept p s t"
  then show "health_kept p s (register_user_behavior t phone behavior_type val now)"
    by (rule health_kept_trans) (rule health_kept_register_user_behavior)
next
  fix t :: lb_state and phone now
  assume "health_kept p s t"
  then show "health_kept p s (snd (detect_session_overload t phone now))"
    by (rule health_kept_trans) (rule health_kept_detect_session_overload)
qed simp

lemma health_score_apply_op:
  "health_score_of s p = Some h \<Longrightarrow> health_score_of (apply_op x s) p = Some h"
  using health_kept_apply_op[of p s x]
  by (auto simp: health_kept_def health_score_of_def split: option.splits)

lemma health_unit_apply_op:
  "health_score_of s p = None \<or> health_score_of s p = Some 1 \<Longrightarrow>
   health_score_of (apply_op x s) p = None \<or> health_score_of (apply_op x s) p = Some 1"
  using health_kept_apply_op[of p s x]
  by (auto simp: health_kept_def health_score_of_def split: option.splits)

lemma health_unit_run:
  "health_score_of s p = None \<or> health_score_of s p = Some 1 \<Longrightarrow>
   health_score_of (run ops s) p = None \<or> health_score_of (run ops s) p = Some 1"
  unfolding run_def
proof (induction ops arbitrary: s)
  case Nil
  then show ?case by simp
next
  case (Cons x xs)
  from Cons.IH[OF health_unit_apply_op[OF Cons.prems, of x]] show ?case by simp
qed

lemma health_of_reachable: "health_of (run ops init_state) p = 1"
proof -
  have "health_score_of init_state p = None"
    by (simp add: health_score_of_def get_metrics_def init_state_def)
  then have "health_score_of (run ops init_state) p = None \<or> health_score_of (run ops init_state) p = Some 1"
    by (intro health_unit_run) simp
  then show ?thesis
    by (auto simp: health_of_def health_score_of_def split: option.splits)
qed

text \<open>
  The claim as stated fails for a session that has metrics before it is registered:
  \<open>register_client\<close> keeps the metrics \<open>record_operation\<close> made, and they have no key
  \<open>health_score\<close>.
\<close>

theorem health_score_not_set_at_registration:
  "active_clients recorded_then_registered ''A'' = Some (TelegramClient 1)
   \<and> sessions recorded_then_registered ''general'' = Some \<lparr>primary = [''A''], backup = []\<rparr>
   \<and> get_metrics recorded_then_registered ''A'' \<noteq> None
   \<and> health_score_of recorded_then_registered ''A'' = None"
  by code_simp

text \<open>
  C10 (as amended). \<open>register_client\<close> stores the health score 1.0 for a session that
  has no metrics yet, and no operation changes a stored health score; a session whose
  metrics have no such key is read with the default 1.0. So in every state the balancer
  reaches, the health score \<open>get_best_client\<close> reads is 1.0 and its combined score is the
  priority of the session, times 0.9 in the backup pool.
\<close>

theorem health_score_never_written:
  "health_of (run ops init_state) phone = 1
   \<and> combined_score (run ops init_state) False phone = real_of_int (priority_of (run ops init_state) phone)
   \<and> combined_score (run ops init_state) True phone
       = real_of_int (priority_of (run ops init_state) phone) * 0.9
   \<and> (get_metrics s phone = None \<longrightarrow>
        health_score_of (register_client s phone cl purpose is_primary) phone = Some 1)
   \<and> (health_score_of t phone = Some h \<longrightarrow> health_score_of (apply_op x t) phone = Some h)"
proof -
  have 1: "health_of (run ops init_state) phone = 1" by (rule health_of_reachable)
  have 2: "health_score_of (register_client s phone cl purpose is_primary) phone = Some 1"
    if "get_metrics s phone = None"
    using that
    by (simp add: health_score_of_def register_client_def Let_def get_metrics_set_metrics
          registered_metrics_def)
  from 1 2 health_score_apply_op[of t phone h x] show ?thesis
    by (simp add: combined_score_def)
qed

theorem health_score_never_written_witness:
  "health_of (run [RegisterClient ''A'' (TelegramClient 1) ''general'' False,
                   RecordOperation ''A'' False (Some ''boom'') 30 ''general'' 10,
                   DetectSessionOverload ''A'' 11,
                   CoolDownSession ''A'' ''general'' 12 1,
                   UpdateSessionPriorities 13] init_state) ''A'' = 1
   \<and> combined_score (run [RegisterClient ''A'' (TelegramClient 1) ''general'' False,
                   RecordOperation ''A'' False (Some ''boom'') 30 ''general'' 10,
                   DetectSessionOverload ''A'' 11,
                   CoolDownSession ''A'' ''general'' 12 1,
                   UpdateSessionPriorities 13] init_state) True ''A'' = 5 * 0.9
   \<and> health_score_of (register_client init_state ''A'' (TelegramClient 1) ''general'' False) ''A'' = Some 1
   \<and> health_score_of (apply_op (CoolDownSession ''A'' ''general'' 12 1) one_session) ''A'' = Some 1"
proof -
  let ?ops = "[RegisterClient ''A'' (TelegramClient 1) ''general'' False,
               RecordOperation ''A'' False (Some ''boom'') 30 ''general'' 10,
               DetectSessionOverload ''A'' 11,
               CoolDownSession ''A'' ''general'' 12 1,
               UpdateSessionPriorities 13]"
  have a: "get_metrics init_state ''A'' = None" by code_simp
  have b: "health_score_of one_session ''A'' = Some 1" by code_simp
  have c: "priority_of (run ?ops init_state) ''A'' = 5" by code_simp
  note th = health_score_never_written[of ?ops "''A''" init_state "TelegramClient 1" "''general''" False
      one_session 1 "CoolDownSession ''A'' ''general'' 12 1"]
  from th have 1: "health_of (run ?ops init_state) ''A'' = 1" by blast
  from th c have 2: "combined_score (run ?ops init_state) True ''A'' = 5 * 0.9" by simp
  from th a have 3: "health_score_of (register_client init_state ''A'' (TelegramClient 1) ''general'' False) ''A'' = Some 1"
    by blast
  from th b have 4: "health_score_of (apply_op (CoolDownSession ''A'' ''general'' 12 1) one_session) ''A'' = Some 1"
    by blast
  from 1 2 3 4 show ?thesis by blast
qed

section \<open>A session without recorded operations is never found overloaded\<close>

















end
